theory Spec2Isabelle
  imports Main "HOL-Library.AList" "HOL-Library.Sublist" "HOL-Library.Multiset"
    "HOL-Library.Multiset_Order"
begin

section \<open>Values decoded from JSON, Python dictionaries and exceptions\<close>

text \<open>
  Everything the \<open>Callings\<close> class handles is decoded JSON: a calling record and a
  candidate member are Python \<open>dict\<close>s with string keys. A dictionary keeps its keys in
  insertion order, so it is an association list: assigning to a key that is present
  replaces the value in place, assigning to a new key appends it, and reading a missing
  key raises \<open>KeyError\<close>. Non-integral JSON numbers are left out: the code only tests
  values for truth and compares them with strings, where they behave as a non-zero
  integer does.
\<close>

datatype jval =
    JNull
  | JBool bool
  | JNum int
  | JStr string
  | JArr "jval list"
  | JObj "(string \<times> jval) list"

type_synonym dict = "(string \<times> jval) list"

text \<open>Python truth value testing, as \<open>or\<close>, \<open>and\<close>, \<open>not\<close> and \<open>filter\<close> apply it.\<close>

fun truthy :: "jval \<Rightarrow> bool" where
  "truthy JNull = False"
| "truthy (JBool b) = b"
| "truthy (JNum n) = (n \<noteq> 0)"
| "truthy (JStr s) = (s \<noteq> [])"
| "truthy (JArr xs) = (xs \<noteq> [])"
| "truthy (JObj kvs) = (kvs \<noteq> [])"

text \<open>
  The exceptions that can leave the code: the two classes the module declares, each
  with its message, \<open>KeyError\<close> with the missing key, and whatever the transport raises
  (\<open>raise_for_status\<close>, a connection error, a body that is not JSON).
\<close>

datatype error =
    ItemNotFoundException string
  | MultipleResponsesException string
  | KeyError string
  | RemoteFailure string

definition getitem :: "dict \<Rightarrow> string \<Rightarrow> error + jval" where
  "getitem d k = (case map_of d k of None \<Rightarrow> Inl (KeyError k) | Some v \<Rightarrow> Inr v)"

definition setitem :: "dict \<Rightarrow> string \<Rightarrow> jval \<Rightarrow> dict" where
  "setitem d k v = AList.update k v d"

section \<open>Uniqueness resolution\<close>

text \<open>
  \<^verbatim>\<open>
  def single(list, itemName):
      if len(list) > 1:
          raise MultipleResponsesException('More than one {} found'.format(itemName))
      elif len(list) == 0:
          raise ItemNotFoundException('No {} found'.format(itemName))
      return list[0]
  \<close>
\<close>

definition single :: "'a list \<Rightarrow> string \<Rightarrow> error + 'a" where
  "single xs itemName =
     (if length xs > 1 then
        Inl (MultipleResponsesException (''More than one '' @ itemName @ '' found''))
      else if length xs = 0 then
        Inl (ItemNotFoundException (''No '' @ itemName @ '' found''))
      else Inr (xs ! 0))"


section \<open>Flattening the organisation tree\<close>

text \<open>
  \<^verbatim>\<open>
  def _flatten_orgs(self, orgs):
      result = orgs
      for org in orgs:
          result += self._flatten_orgs(org['children'])
      return result
  \<close>
  \<open>result = orgs\<close> binds a second name to the argument list, and \<open>+=\<close> on a list
  extends it in place. The lists are therefore kept in an explicit store: a heap maps the
  identity of a list object to its current contents. A node is never written, so it is a
  value holding the identity of its \<open>children\<close> list and the references of its calling
  records (\<open>'c\<close>). The shape of the nodes, a \<open>children\<close> list and a \<open>callings\<close> list in
  each, is the one the endpoint delivers.
\<close>

record ('a, 'c) org =
  children :: 'a
  callings :: "'c list"

type_synonym ('a, 'c) heap = "'a \<Rightarrow> ('a, 'c) org list"

text \<open>
  The \<open>for\<close> loop asks the list iterator for element \<open>i\<close> as long as \<open>i\<close> is below the
  current length of \<open>orgs\<close>, so elements appended during the loop are visited as well.
  Each round runs the recursive call to its end and then appends the contents of the
  list it returned to \<open>result\<close>. A call that never returns has the value \<open>None\<close>.
\<close>

partial_function (option) flatten_loop ::
  "('a, 'c) heap \<Rightarrow> 'a \<Rightarrow> 'a \<Rightarrow> nat \<Rightarrow> (('a, 'c) heap \<times> 'a) option" where
  "flatten_loop h orgs result i =
     (if i < length (h orgs) then
        Option.bind (flatten_loop h (children (h orgs ! i)) (children (h orgs ! i)) 0)
          (\<lambda>(h', r). flatten_loop (h'(result := h' result @ h' r)) orgs result (Suc i))
      else Some (h, result))"

declare flatten_loop.simps [code]

definition flatten_orgs :: "('a, 'c) heap \<Rightarrow> 'a \<Rightarrow> (('a, 'c) heap \<times> 'a) option" where
  "flatten_orgs h orgs = flatten_loop h orgs orgs 0"

subsection \<open>The decoded response as a heap\<close>

text \<open>
  The JSON document of \<open>services/orgs/sub-orgs-with-callings\<close> is a finite forest.
  Decoding it builds one fresh list object for every \<open>children\<close> array. The list that
  holds the children of the node reached by the index path \<open>p\<close> gets the path itself as
  its identity, the top-level list the empty path: distinct arrays get distinct
  identities, as in the decoder.
\<close>

datatype 'c org_tree = OrgTree (tree_callings: "'c list") (tree_children: "'c org_tree list")

fun subforest :: "'c org_tree list \<Rightarrow> nat list \<Rightarrow> 'c org_tree list" where
  "subforest ts [] = ts"
| "subforest ts (i # p) = (if i < length ts then subforest (tree_children (ts ! i)) p else [])"

definition heap_of :: "'c org_tree list \<Rightarrow> (nat list, 'c) heap" where
  "heap_of ts p =
     map (\<lambda>i. \<lparr>children = p @ [i], callings = tree_callings (subforest ts p ! i)\<rparr>)
       [0..<length (subforest ts p)]"

text \<open>What the specification compares the flattened list with: every record of every node,
  parents before their descendants, and the number of levels below a list.\<close>

fun pre_callings :: "'c org_tree \<Rightarrow> 'c list" where
  "pre_callings (OrgTree cs ts) = cs @ concat (map pre_callings ts)"

fun height :: "'c org_tree \<Rightarrow> nat" where
  "height (OrgTree cs ts) = Suc (fold max (map height ts) 0)"

definition forest_height :: "'c org_tree list \<Rightarrow> nat" where
  "forest_height ts = fold max (map height ts) 0"

text \<open>A heap has no cycle when some measure falls from every list to the child lists of
  its nodes.\<close>

definition acyclic_below :: "('a \<Rightarrow> nat) \<Rightarrow> ('a, 'c) heap \<Rightarrow> bool" where
  "acyclic_below rank h = (\<forall>b. \<forall>x \<in> set (h b). rank (children x) < rank b)"

text \<open>The nodes below a list: the nodes it holds, and the nodes below their child lists.\<close>

inductive below :: "('a, 'c) heap \<Rightarrow> 'a \<Rightarrow> ('a, 'c) org \<Rightarrow> bool" for h :: "('a, 'c) heap" where
  top: "x \<in> set (h a) \<Longrightarrow> below h a x"
| deeper: "x \<in> set (h a) \<Longrightarrow> below h (children x) y \<Longrightarrow> below h a y"

text \<open>What one run of the loop from index \<open>i\<close> establishes between the heap before and
  the heap after.\<close>

definition loop_post ::
  "('a \<Rightarrow> nat) \<Rightarrow> ('a, 'c) heap \<Rightarrow> 'a \<Rightarrow> nat \<Rightarrow> ('a, 'c) heap \<Rightarrow> bool" where
  "loop_post rank h a i h' =
     (acyclic_below rank h'
      \<and> (\<forall>b. prefix (h b) (h' b))
      \<and> (\<forall>b. \<not> rank b \<le> rank a \<longrightarrow> h' b = h b)
      \<and> (\<forall>b. \<forall>y \<in> set (h' b). below h b y)
      \<and> (\<forall>x \<in> set (drop i (h a)). \<forall>y. below h (children x) y \<longrightarrow> y \<in> set (h' a))
      \<and> (\<forall>k. length (h a) \<le> k \<and> k < length (h' a) \<longrightarrow>
            (\<exists>j < k. h' a ! k \<in> set (h' (children (h' a ! j))))))"

text \<open>
  The order inside a list of the decoded heap, where the node with the index path
  \<open>q @ [i]\<close> is child number \<open>i\<close> of the node with the path \<open>q\<close>: every node of the list
  \<open>b\<close> is a child of the list's owner or stands after its parent, and it is a first
  child or stands after its left sibling.
\<close>

definition family_order :: "nat list \<Rightarrow> (nat list, 'c) org list \<Rightarrow> bool" where
  "family_order b xs =
     (\<forall>k < length xs. \<exists>q i. children (xs ! k) = q @ [i]
        \<and> (q = b \<or> (\<exists>j < k. children (xs ! j) = q))
        \<and> (i = 0 \<or> (\<exists>j < k. children (xs ! j) = q @ [i - 1])))"

section \<open>Dates on the wire\<close>

text \<open>
  \<^verbatim>\<open>
  def to_lcr_date_format(date: date):
      return date.strftime("%Y%m%d")
  \<close>
  \<open>%Y\<close>, \<open>%m\<close> and \<open>%d\<close> print the year, the month and the day as decimal numbers,
  the month and the day zero-padded to two digits. The year is printed as it is, without
  leading zeros: \<open>date(999, 1, 1)\<close> gives \<open>9990101\<close>.
\<close>

record date =
  year :: nat
  month :: nat
  day :: nat

definition digit :: "nat \<Rightarrow> char" where
  "digit n = ''0123456789'' ! n"

fun decimal :: "nat \<Rightarrow> string" where
  "decimal n = (if n < 10 then [digit n] else decimal (n div 10) @ [digit (n mod 10)])"

declare decimal.simps [simp del]

definition zfill :: "nat \<Rightarrow> string \<Rightarrow> string" where
  "zfill w s = replicate (w - length s) (CHR ''0'') @ s"

definition to_lcr_date_format :: "date \<Rightarrow> string" where
  "to_lcr_date_format d =
     decimal (year d) @ zfill 2 (decimal (month d)) @ zfill 2 (decimal (day d))"

text \<open>The dates \<open>datetime.date\<close> can hold from the year 1000 on (the day bound is the
  widest one, so every real date is covered).\<close>

definition four_digit_date :: "date \<Rightarrow> bool" where
  "four_digit_date d =
     (1000 \<le> year d \<and> year d \<le> 9999 \<and> 1 \<le> month d \<and> month d \<le> 12 \<and> 1 \<le> day d \<and> day d \<le> 31)"

text \<open>
  The wire format in the specification's words, to compare the code with: \<open>YYYYMMDD\<close>,
  eight ASCII digits, zero-padded, no separators. The digit \<open>k\<close> is the character with
  the code \<open>48 + k\<close>; the four digits of the year come first, from the thousands down,
  then the two digits of the month and the two digits of the day.
\<close>

definition ascii_digit :: "nat \<Rightarrow> char" where
  "ascii_digit k = char_of (48 + k)"

definition yyyymmdd :: "date \<Rightarrow> string" where
  "yyyymmdd d =
     [ascii_digit (year d div 1000 mod 10), ascii_digit (year d div 100 mod 10),
      ascii_digit (year d div 10 mod 10), ascii_digit (year d mod 10),
      ascii_digit (month d div 10 mod 10), ascii_digit (month d mod 10),
      ascii_digit (day d div 10 mod 10), ascii_digit (day d mod 10)]"

definition ascii_digits :: "string \<Rightarrow> bool" where
  "ascii_digits s = list_all (\<lambda>c. c \<in> set ''0123456789'') s"

section \<open>The calling directory and the remote portal\<close>

text \<open>
  A \<open>Callings\<close> object holds \<open>self.callings\<close>, a list of references to the calling
  dictionaries of the decoded tree. The workflows write into those dictionaries, so they
  live in a store of objects and the list holds their references. The state also carries
  \<open>self.api.unit_number\<close> and, as a trace, every request handed to the session, in
  order.

  The portal is a parameter: \<open>get\<close> and \<open>post\<close> give the decoded answer to a request
  or the exception \<open>_make_request\<close> raises for it. The candidate endpoint answers with
  an array of objects.
\<close>

datatype request =
    Get string dict
  | Post string dict

record state =
  self_callings :: "nat list"
  objects :: "nat \<Rightarrow> dict"
  unit_number :: jval
  requests :: "request list"

text \<open>
  \<^verbatim>\<open>
  def get_request(self, path, params = {}):
      params['lang'] = 'eng'
      return self._make_request({'url': ..., 'params': params})

  def post_request(self, path, params = {}):
      return self._make_request({'url': ..., 'json': params, 'params': { 'lang': 'eng'}}, True)
  \<close>
\<close>

definition get_request ::
  "(string \<Rightarrow> dict \<Rightarrow> error + 'r) \<Rightarrow> state \<Rightarrow> string \<Rightarrow> dict \<Rightarrow> (error + 'r) \<times> state" where
  "get_request get st path params =
     (let params' = setitem params ''lang'' (JStr ''eng'')
      in (get path params', st\<lparr>requests := requests st @ [Get path params']\<rparr>))"

definition post_request ::
  "(string \<Rightarrow> dict \<Rightarrow> error + 'r) \<Rightarrow> state \<Rightarrow> string \<Rightarrow> dict \<Rightarrow> (error + 'r) \<times> state" where
  "post_request post st path params =
     (post path params, st\<lparr>requests := requests st @ [Post path params]\<rparr>)"

text \<open>\<open>calling[k] = v\<close> on the dictionary object that \<open>calling\<close> refers to.\<close>

definition assign :: "state \<Rightarrow> nat \<Rightarrow> string \<Rightarrow> jval \<Rightarrow> state" where
  "assign st calling k v = st\<lparr>objects := (objects st)(calling := setitem (objects st calling) k v)\<rparr>"

subsection \<open>Construction\<close>

text \<open>
  \<^verbatim>\<open>
  def __init__(self, api: API):
      self.api = api
      orgs_with_callings = api.get_request('services/orgs/sub-orgs-with-callings').json()
      flattened_orgs = self._flatten_orgs(orgs_with_callings)
      calling_lists = map(lambda org: org['callings'], flattened_orgs)
      self.callings = [calling for callings in calling_lists for calling in callings]
  \<close>
  The decoded answer is the forest of the nodes together with the store of the calling
  dictionaries its nodes refer to.
\<close>

definition flattened_callings :: "'c org_tree list \<Rightarrow> 'c list option" where
  "flattened_callings orgs_with_callings =
     map_option (\<lambda>(h', flattened_orgs). concat (map callings (h' flattened_orgs)))
       (flatten_orgs (heap_of orgs_with_callings) [])"

definition Callings_init ::
  "(string \<Rightarrow> dict \<Rightarrow> error + nat org_tree list \<times> (nat \<Rightarrow> dict)) \<Rightarrow> jval
     \<Rightarrow> (error + state) option" where
  "Callings_init get unit =
     (case get ''services/orgs/sub-orgs-with-callings'' [(''lang'', JStr ''eng'')] of
        Inl e \<Rightarrow> Some (Inl e)
      | Inr (orgs_with_callings, dicts) \<Rightarrow>
          map_option
            (\<lambda>cs. Inr \<lparr>self_callings = cs, objects = dicts, unit_number = unit,
                 requests = [Get ''services/orgs/sub-orgs-with-callings'' [(''lang'', JStr ''eng'')]]\<rparr>)
            (flattened_callings orgs_with_callings))"

subsection \<open>Calling lookup\<close>

text \<open>
  \<^verbatim>\<open>
  def _get_calling_by_name(self, position, lastNameCommaFirst = None,
                           condition = lambda calling: True):
      callings = [calling for calling in self.callings
                  if calling['position'] == position
                  and (calling['memberName'] == lastNameCommaFirst or lastNameCommaFirst == None)]
      return single(list(filter(condition, callings)), 'calling')
  \<close>
  \<open>lastNameCommaFirst\<close> is \<open>None\<close> or a string. A test that raises ends the comprehension
  or the filter at that element.
\<close>

fun filter_raise :: "('a \<Rightarrow> error + bool) \<Rightarrow> 'a list \<Rightarrow> error + 'a list" where
  "filter_raise p [] = Inr []"
| "filter_raise p (x # xs) =
     (case p x of
        Inl e \<Rightarrow> Inl e
      | Inr b \<Rightarrow> (case filter_raise p xs of
                   Inl e \<Rightarrow> Inl e
                 | Inr ys \<Rightarrow> Inr (if b then x # ys else ys)))"

text \<open>\<open>v == lastNameCommaFirst\<close> for a decoded value \<open>v\<close>.\<close>

definition py_eq :: "jval \<Rightarrow> string option \<Rightarrow> bool" where
  "py_eq v n = (case n of None \<Rightarrow> v = JNull | Some s \<Rightarrow> v = JStr s)"

definition position_and_name :: "string \<Rightarrow> string option \<Rightarrow> dict \<Rightarrow> error + bool" where
  "position_and_name position lastNameCommaFirst calling =
     (case getitem calling ''position'' of
        Inl e \<Rightarrow> Inl e
      | Inr p \<Rightarrow>
          if p = JStr position then
            (case getitem calling ''memberName'' of
               Inl e \<Rightarrow> Inl e
             | Inr m \<Rightarrow> Inr (py_eq m lastNameCommaFirst \<or> lastNameCommaFirst = None))
          else Inr False)"

definition get_calling_by_name ::
  "state \<Rightarrow> string \<Rightarrow> string option \<Rightarrow> (dict \<Rightarrow> error + bool) \<Rightarrow> error + nat" where
  "get_calling_by_name st position lastNameCommaFirst condition =
     (case filter_raise (\<lambda>calling. position_and_name position lastNameCommaFirst (objects st calling))
             (self_callings st) of
        Inl e \<Rightarrow> Inl e
      | Inr callings' \<Rightarrow>
          (case filter_raise (\<lambda>calling. condition (objects st calling)) callings' of
             Inl e \<Rightarrow> Inl e
           | Inr matched \<Rightarrow> single matched ''calling''))"

text \<open>The default \<open>condition\<close>, \<open>lambda calling: True\<close>.\<close>

definition always :: "dict \<Rightarrow> error + bool" where
  "always calling = Inr True"

subsection \<open>Release\<close>

text \<open>
  \<^verbatim>\<open>
  def release_from_calling(self, position, lastNameCommaFirst):
      calling = self._get_calling_by_name(position, lastNameCommaFirst)
      calling['vacant'] = True
      calling['releaseDate'] = to_lcr_date_format(date.today())

      self.api.post_request('services/orgs/callings', calling)
  \<close>
  \<open>today\<close> is what \<open>date.today()\<close> returns.
\<close>

definition release_from_calling ::
  "(string \<Rightarrow> dict \<Rightarrow> error + jval) \<Rightarrow> date \<Rightarrow> state \<Rightarrow> string \<Rightarrow> string option
     \<Rightarrow> (error + unit) \<times> state" where
  "release_from_calling post today st position lastNameCommaFirst =
     (case get_calling_by_name st position lastNameCommaFirst always of
        Inl e \<Rightarrow> (Inl e, st)
      | Inr calling \<Rightarrow>
          (let st1 = assign st calling ''vacant'' (JBool True);
               st2 = assign st1 calling ''releaseDate'' (JStr (to_lcr_date_format today))
           in case post_request post st2 ''services/orgs/callings'' (objects st2 calling) of
                (Inl e, st3) \<Rightarrow> (Inl e, st3)
              | (Inr response, st3) \<Rightarrow> (Inr (), st3)))"

subsection \<open>Appointment\<close>

text \<open>
  \<^verbatim>\<open>
  def call_to(self, position: str, lastNameCommaFirst: str, sustained_date: date,
              set_apart: bool = False, include_hidden = False):
      calling = self._get_calling_by_name(position, condition=lambda calling:
          (calling['vacant'] or calling['memberName'] == lastNameCommaFirst)
          and (not calling['hidden'] or include_hidden))
      member_response = self.api.get_request('services/orgs/lookup-calling-candidate-by-name', {
          'term': lastNameCommaFirst,
          'unitNumber': self.api.unit_number,
          'subOrgId': calling['subOrgId'],
          'includeOutOfUnitMembers': True,
          'positionTypeId': calling['positionTypeId'],
          '_': None
      })
      members = json.loads(member_response.text)
      member = single(members, 'member')

      calling['activeDate'] = to_lcr_date_format(sustained_date)
      calling['memberId'] = member['id']
      calling['setApart'] = set_apart
      calling['vacant'] = False
      calling['hidden'] = False

      return self.api.post_request('services/orgs/callings', calling)
  \<close>
\<close>

definition call_to_condition :: "string \<Rightarrow> bool \<Rightarrow> dict \<Rightarrow> error + bool" where
  "call_to_condition lastNameCommaFirst include_hidden calling =
     (case getitem calling ''vacant'' of
        Inl e \<Rightarrow> Inl e
      | Inr v \<Rightarrow>
          (case (if truthy v then Inr True
                 else (case getitem calling ''memberName'' of
                         Inl e \<Rightarrow> Inl e
                       | Inr m \<Rightarrow> Inr (m = JStr lastNameCommaFirst))) of
             Inl e \<Rightarrow> Inl e
           | Inr vacant_or_named \<Rightarrow>
               if vacant_or_named then
                 (case getitem calling ''hidden'' of
                    Inl e \<Rightarrow> Inl e
                  | Inr hidden \<Rightarrow> Inr (\<not> truthy hidden \<or> include_hidden))
               else Inr False))"

text \<open>The dictionary literal of the candidate query; its entries are evaluated in order.\<close>

definition candidate_query :: "state \<Rightarrow> nat \<Rightarrow> string \<Rightarrow> error + dict" where
  "candidate_query st calling lastNameCommaFirst =
     (case getitem (objects st calling) ''subOrgId'' of
        Inl e \<Rightarrow> Inl e
      | Inr subOrgId \<Rightarrow>
          (case getitem (objects st calling) ''positionTypeId'' of
             Inl e \<Rightarrow> Inl e
           | Inr positionTypeId \<Rightarrow>
               Inr [(''term'', JStr lastNameCommaFirst),
                    (''unitNumber'', unit_number st),
                    (''subOrgId'', subOrgId),
                    (''includeOutOfUnitMembers'', JBool True),
                    (''positionTypeId'', positionTypeId),
                    (''_'', JNull)]))"

text \<open>The five assignments and the write, from \<open>calling['activeDate'] = ...\<close> on.\<close>

definition appoint ::
  "(string \<Rightarrow> dict \<Rightarrow> error + jval) \<Rightarrow> state \<Rightarrow> nat \<Rightarrow> dict \<Rightarrow> date \<Rightarrow> bool
     \<Rightarrow> (error + jval) \<times> state" where
  "appoint post st calling member sustained_date set_apart =
     (let st1 = assign st calling ''activeDate'' (JStr (to_lcr_date_format sustained_date))
      in case getitem member ''id'' of
           Inl e \<Rightarrow> (Inl e, st1)
         | Inr member_id \<Rightarrow>
             (let st2 = assign st1 calling ''memberId'' member_id;
                  st3 = assign st2 calling ''setApart'' (JBool set_apart);
                  st4 = assign st3 calling ''vacant'' (JBool False);
                  st5 = assign st4 calling ''hidden'' (JBool False)
              in post_request post st5 ''services/orgs/callings'' (objects st5 calling)))"

definition call_to ::
  "(string \<Rightarrow> dict \<Rightarrow> error + dict list) \<Rightarrow> (string \<Rightarrow> dict \<Rightarrow> error + jval) \<Rightarrow> state
     \<Rightarrow> string \<Rightarrow> string \<Rightarrow> date \<Rightarrow> bool \<Rightarrow> bool \<Rightarrow> (error + jval) \<times> state" where
  "call_to get post st position lastNameCommaFirst sustained_date set_apart include_hidden =
     (case get_calling_by_name st position None
             (call_to_condition lastNameCommaFirst include_hidden) of
        Inl e \<Rightarrow> (Inl e, st)
      | Inr calling \<Rightarrow>
          (case candidate_query st calling lastNameCommaFirst of
             Inl e \<Rightarrow> (Inl e, st)
           | Inr query \<Rightarrow>
               (case get_request get st ''services/orgs/lookup-calling-candidate-by-name'' query of
                  (Inl e, st1) \<Rightarrow> (Inl e, st1)
                | (Inr members, st1) \<Rightarrow>
                    (case single members ''member'' of
                       Inl e \<Rightarrow> (Inl e, st1)
                     | Inr member \<Rightarrow> appoint post st1 calling member sustained_date set_apart))))"

text \<open>
  The target rule of the appointment in the specification's words, to compare the code
  with: a record is a target when its position is the given one, it is vacant or carries
  the candidate's name, and it is not hidden unless hidden slots are included. The
  records the rule is stated for carry the fields it reads.
\<close>

definition appointment_targets :: "state \<Rightarrow> string \<Rightarrow> string \<Rightarrow> bool \<Rightarrow> nat list" where
  "appointment_targets st position candidateName includeHidden =
     filter (\<lambda>c. map_of (objects st c) ''position'' = Some (JStr position)
          \<and> (case map_of (objects st c) ''vacant'' of
                None \<Rightarrow> False
              | Some v \<Rightarrow> truthy v \<or> map_of (objects st c) ''memberName'' = Some (JStr candidateName))
          \<and> (case map_of (objects st c) ''hidden'' of
                None \<Rightarrow> False
              | Some h \<Rightarrow> includeHidden \<or> \<not> truthy h))
       (self_callings st)"

definition appointable_shape :: "string \<Rightarrow> dict \<Rightarrow> bool" where
  "appointable_shape position r =
     (case map_of r ''position'' of
        None \<Rightarrow> False
      | Some p \<Rightarrow> p = JStr position \<longrightarrow>
          map_of r ''memberName'' \<noteq> None \<and> map_of r ''vacant'' \<noteq> None \<and> map_of r ''hidden'' \<noteq> None)"

section \<open>Example inputs\<close>

text \<open>A chain of three levels: the top-level unit holds record 1, its child record 2 and
  its grandchild record 3.\<close>

definition deep_orgs :: "nat org_tree list" where
  "deep_orgs = [OrgTree [1] [OrgTree [2] [OrgTree [3] []]]]"

text \<open>Two top-level units; the first one has a child.\<close>

definition sibling_orgs :: "nat org_tree list" where
  "sibling_orgs = [OrgTree [1] [OrgTree [2] []], OrgTree [3] []]"

text \<open>Calling records as the portal delivers them, two directories and a few portals: one
  that answers every candidate query with the same members, one that accepts every
  write and one that refuses it.\<close>

definition teacher_smith :: dict where
  "teacher_smith =
     [(''position'', JStr ''Teacher''), (''memberName'', JStr ''Smith, John''),
      (''memberId'', JStr ''111''), (''vacant'', JBool False), (''hidden'', JBool False),
      (''subOrgId'', JNum 7), (''positionTypeId'', JNum 42),
      (''activeDate'', JStr ''20200101''), (''releaseDate'', JNull), (''setApart'', JBool True)]"

definition teacher_doe :: dict where
  "teacher_doe =
     [(''position'', JStr ''Teacher''), (''memberName'', JStr ''Doe, Jane''),
      (''memberId'', JStr ''222''), (''vacant'', JBool False), (''hidden'', JBool False),
      (''subOrgId'', JNum 7), (''positionTypeId'', JNum 42),
      (''activeDate'', JStr ''20210101''), (''releaseDate'', JNull), (''setApart'', JBool True)]"

definition teacher_vacant :: "bool \<Rightarrow> dict" where
  "teacher_vacant hidden =
     [(''position'', JStr ''Teacher''), (''memberName'', JNull),
      (''memberId'', JNull), (''vacant'', JBool True), (''hidden'', JBool hidden),
      (''subOrgId'', JNum 7), (''positionTypeId'', JNum 42),
      (''activeDate'', JNull), (''releaseDate'', JStr ''20230101''), (''setApart'', JBool False)]"

definition clerk_jones :: dict where
  "clerk_jones =
     [(''position'', JStr ''Clerk''), (''memberName'', JStr ''Jones, Ann''),
      (''memberId'', JStr ''333''), (''vacant'', JBool False), (''hidden'', JBool False),
      (''subOrgId'', JNum 8), (''positionTypeId'', JNum 43),
      (''activeDate'', JStr ''20220101''), (''releaseDate'', JNull), (''setApart'', JBool True)]"

definition teachers :: state where
  "teachers = \<lparr>self_callings = [1, 2],
      objects = (\<lambda>_. [])(1 := teacher_smith, 2 := teacher_doe),
      unit_number = JNum 9999, requests = []\<rparr>"

definition open_slot :: "bool \<Rightarrow> state" where
  "open_slot hidden = \<lparr>self_callings = [1, 3],
      objects = (\<lambda>_. [])(1 := clerk_jones, 3 := teacher_vacant hidden),
      unit_number = JNum 9999, requests = []\<rparr>"

definition candidates :: "dict list \<Rightarrow> string \<Rightarrow> dict \<Rightarrow> error + dict list" where
  "candidates members path query = Inr members"

definition doe_jane :: dict where
  "doe_jane = [(''id'', JStr ''12345''), (''name'', JStr ''Doe, Jane'')]"

definition accepting :: "string \<Rightarrow> dict \<Rightarrow> error + jval" where
  "accepting path body = Inr (JObj body)"

definition rejecting :: "string \<Rightarrow> dict \<Rightarrow> error + jval" where
  "rejecting path body = Inl (RemoteFailure ''500 Server Error'')"

definition deep_portal :: "string \<Rightarrow> dict \<Rightarrow> error + nat org_tree list \<times> (nat \<Rightarrow> dict)" where
  "deep_portal path query =
     Inr (deep_orgs, (\<lambda>_. [])(1 := teacher_smith, 2 := teacher_doe, 3 := clerk_jones))"

section \<open>Properties of \<open>single\<close>\<close>

text \<open>
  C3. Uniqueness resolution: on the empty sequence \<open>single\<close> raises
  \<open>ItemNotFoundException\<close>, on a sequence of two or more elements it raises
  \<open>MultipleResponsesException\<close>, and on a sequence of exactly one element it returns
  that element.
\<close>

theorem single_resolution:
  "single ([] :: 'a list) n = Inl (ItemNotFoundException (''No '' @ n @ '' found''))
   \<and> single ((a :: 'a) # b # rest) n = Inl (MultipleResponsesException (''More than one '' @ n @ '' found''))
   \<and> single [a] n = Inr a
   \<and> (single (xs :: 'a list) n = Inr y \<longleftrightarrow> xs = [y])"
proof -
  have "single xs n = Inr y \<longleftrightarrow> xs = [y]"
    by (cases xs; cases "tl xs") (auto simp: single_def)
  then show ?thesis by (simp add: single_def)
qed

text \<open>The three cases of C3 on concrete lists.\<close>
theorem single_resolution_witness:
  "single ([] :: nat list) ''member'' = Inl (ItemNotFoundException ''No member found'')
   \<and> single [7 :: nat, 2] ''member'' = Inl (MultipleResponsesException ''More than one member found'')
   \<and> single [7 :: nat] ''member'' = Inr 7"
  using single_resolution [where n = "''member''" and a = "7 :: nat" and b = 2 and rest = "[]"
      and xs = "[7]" and y = 7]
  by simp



section \<open>Flattening: termination and what the call leaves behind\<close>

lemma below_cases:
  "below h a y \<Longrightarrow> y \<in> set (h a) \<or> (\<exists>x \<in> set (h a). below h (children x) y)"
  by (erule below.cases) auto

lemma below_mono:
  assumes "\<And>b. set (h b) \<subseteq> set (h' b)"
  shows "below h a y \<Longrightarrow> below h' a y"
proof (induction rule: below.induct)
  case (top x a)
  then show ?case using assms by (auto intro: below.top)
next
  case (deeper x a y)
  then show ?case using assms by (auto intro: below.deeper)
qed

lemma below_trans:
  "below h a x \<Longrightarrow> below h (children x) y \<Longrightarrow> below h a y"
  by (induction rule: below.induct) (auto intro: below.deeper)

lemma below_closed:
  assumes "\<And>b x. x \<in> set (h' b) \<Longrightarrow> below h b x"
  shows "below h' a y \<Longrightarrow> below h a y"
proof (induction rule: below.induct)
  case (top x a)
  then show ?case using assms by auto
next
  case (deeper x a y)
  then have "below h a x" using assms by auto
  then show ?case using deeper.IH by (rule below_trans)
qed

lemma weights_decrease:
  fixes w :: "'b \<Rightarrow> nat"
  assumes "i < length xs" and "\<forall>y \<in> set ys. w y < w (xs ! i)"
  shows "mset (map w (drop (Suc i) (xs @ ys))) < mset (map w (drop i xs))"
proof -
  have d: "drop i xs = xs ! i # drop (Suc i) xs"
    using assms(1) by (simp add: Cons_nth_drop_Suc)
  have "mset (map w ys) < {#w (xs ! i)#}"
    using assms(2) by simp
  then have "mset (map w (drop (Suc i) xs)) + mset (map w ys)
      < mset (map w (drop (Suc i) xs)) + {#w (xs ! i)#}"
    by (rule add_strict_left_mono)
  moreover have "drop (Suc i) (xs @ ys) = drop (Suc i) xs @ ys"
    using assms(1) by simp
  ultimately show ?thesis
    by (simp add: d)
qed

lemma flatten_loop_total_aux:
  fixes h :: "('a, 'c) heap" and inv :: "'a \<Rightarrow> ('a, 'c) org list \<Rightarrow> bool"
  assumes closure: "\<forall>a xs i ys. inv a xs \<and> i < length xs \<and> inv (children (xs ! i)) ys
      \<longrightarrow> inv a (xs @ ys)"
  shows "rank a = n \<Longrightarrow> acyclic_below rank h \<Longrightarrow> \<forall>b. inv b (h b)
    \<Longrightarrow> mset (map (rank \<circ> children) (drop i (h a))) = M
    \<Longrightarrow> \<exists>h'. flatten_loop h a a i = Some (h', a) \<and> loop_post rank h a i h'
          \<and> (\<forall>b. inv b (h' b))"
proof (induction n arbitrary: M h a i rule: less_induct)
  case (less n)
  note outer = less.IH
  from less.prems show ?case
  proof (induction M arbitrary: h a i rule: less_induct)
    case (less M)
    note inner = less.IH
    note ra = \<open>rank a = n\<close> and acy = \<open>acyclic_below rank h\<close>
      and invh = \<open>\<forall>b. inv b (h b)\<close>
      and M = \<open>mset (map (rank \<circ> children) (drop i (h a))) = M\<close>
    show ?case
    proof -
      show "\<exists>h'. flatten_loop h a a i = Some (h', a) \<and> loop_post rank h a i h'
          \<and> (\<forall>b. inv b (h' b))"
      proof (cases "i < length (h a)")
        case False
        then have "flatten_loop h a a i = Some (h, a)"
          by (subst flatten_loop.simps) simp
        moreover have "loop_post rank h a i h"
          using False acy by (auto simp: loop_post_def intro: below.top)
        ultimately show ?thesis using invh by blast
      next
        case True
        define c where "c = children (h a ! i)"
        have xin: "h a ! i \<in> set (h a)" using True by simp
        then have rc: "rank c < rank a"
          using acy by (auto simp: acyclic_below_def c_def)
        have "rank c < n" using rc ra by simp
        then have "\<exists>h1. flatten_loop h c c 0 = Some (h1, c) \<and> loop_post rank h c 0 h1
            \<and> (\<forall>b. inv b (h1 b))"
          by (rule outer [OF _ refl acy invh refl])
        then obtain h1 where r1: "flatten_loop h c c 0 = Some (h1, c)"
          and p1: "loop_post rank h c 0 h1" and inv1: "\<forall>b. inv b (h1 b)"
          by blast
        have acy1: "acyclic_below rank h1" and pre1: "\<And>b. prefix (h b) (h1 b)"
          and frame1: "\<And>b. \<not> rank b \<le> rank c \<Longrightarrow> h1 b = h b"
          and own1: "\<And>b y. y \<in> set (h1 b) \<Longrightarrow> below h b y"
          and desc1: "\<And>x y. x \<in> set (h c) \<Longrightarrow> below h (children x) y \<Longrightarrow> y \<in> set (h1 c)"
          using p1 by (auto simp: loop_post_def)
        have h1a: "h1 a = h a" using frame1 [of a] rc by simp
        have ca: "c \<noteq> a" using rc by auto
        define h2 where "h2 = h1(a := h1 a @ h1 c)"
        have h2a: "h2 a = h a @ h1 c" by (simp add: h2_def h1a)
        have h2b: "\<And>b. b \<noteq> a \<Longrightarrow> h2 b = h1 b" by (simp add: h2_def)
        have small: "\<forall>y \<in> set (h1 c). rank (children y) < rank c"
          using acy1 by (auto simp: acyclic_below_def)
        have acy2: "acyclic_below rank h2"
          unfolding acyclic_below_def
        proof (intro allI ballI)
          fix b x assume x: "x \<in> set (h2 b)"
          show "rank (children x) < rank b"
          proof (cases "b = a")
            case True
            then have "x \<in> set (h a) \<or> x \<in> set (h1 c)" using x h2a by auto
            then show ?thesis
              using acy small rc True by (auto simp: acyclic_below_def)
          next
            case False
            then show ?thesis using x acy1 h2b by (auto simp: acyclic_below_def)
          qed
        qed
        have "mset (map (rank \<circ> children) (drop (Suc i) (h a @ h1 c)))
            < mset (map (rank \<circ> children) (drop i (h a)))"
          by (rule weights_decrease [OF True]) (use small in \<open>simp add: c_def\<close>)
        then have dec: "mset (map (rank \<circ> children) (drop (Suc i) (h2 a))) < M"
          using M h2a by simp
        have inv2: "\<forall>b. inv b (h2 b)"
        proof
          fix b show "inv b (h2 b)"
          proof (cases "b = a")
            case True
            have "inv a (h a) \<and> i < length (h a) \<and> inv (children (h a ! i)) (h1 c)"
              using invh \<open>i < length (h a)\<close> inv1 by (simp add: c_def)
            then have "inv a (h a @ h1 c)"
              using closure by blast
            then show ?thesis by (simp add: True h2a)
          next
            case False
            then show ?thesis using inv1 by (simp add: h2b)
          qed
        qed
        have "\<exists>h'. flatten_loop h2 a a (Suc i) = Some (h', a) \<and> loop_post rank h2 a (Suc i) h'
            \<and> (\<forall>b. inv b (h' b))"
          by (rule inner [OF dec ra acy2 inv2 refl])
        then obtain h' where r2: "flatten_loop h2 a a (Suc i) = Some (h', a)"
          and p2: "loop_post rank h2 a (Suc i) h'" and inv': "\<forall>b. inv b (h' b)"
          by blast
        have run: "flatten_loop h a a i = Some (h', a)"
          by (subst flatten_loop.simps) (simp add: True r1 [unfolded c_def] r2 [unfolded h2_def c_def])
        have acy': "acyclic_below rank h'" and pre2: "\<And>b. prefix (h2 b) (h' b)"
          and frame2: "\<And>b. \<not> rank b \<le> rank a \<Longrightarrow> h' b = h2 b"
          and foreign2: "\<And>b y. y \<in> set (h' b) \<Longrightarrow> below h2 b y"
          and desc2: "\<And>x y. x \<in> set (drop (Suc i) (h2 a)) \<Longrightarrow> below h2 (children x) y
                 \<Longrightarrow> y \<in> set (h' a)"
          and own2: "\<And>k. length (h2 a) \<le> k \<Longrightarrow> k < length (h' a) \<Longrightarrow>
                 \<exists>j < k. h' a ! k \<in> set (h' (children (h' a ! j)))"
          using p2 by (auto simp: loop_post_def)
        have pre12: "\<And>b. prefix (h1 b) (h2 b)"
          by (simp add: h2_def)
        have pre: "\<And>b. prefix (h b) (h' b)"
          using pre1 pre12 pre2 by (meson prefix_order.trans)
        have frame: "\<And>b. \<not> rank b \<le> rank a \<Longrightarrow> h' b = h b"
        proof -
          fix b assume b: "\<not> rank b \<le> rank a"
          then have "b \<noteq> a" by auto
          then show "h' b = h b"
            using frame2 [OF b] h2b frame1 [of b] b rc by simp
        qed
        have sub12: "\<And>b. set (h b) \<subseteq> set (h2 b)"
          using pre1 pre12 by (meson prefix_order.trans set_mono_prefix)
        have all_c: "\<And>y. below h c y \<Longrightarrow> y \<in> set (h1 c)"
        proof -
          fix y assume "below h c y"
          then have "y \<in> set (h c) \<or> (\<exists>x \<in> set (h c). below h (children x) y)"
            by (rule below_cases)
          then show "y \<in> set (h1 c)"
            using pre1 [of c] desc1 by (auto dest: set_mono_prefix)
        qed
        have c_below: "\<And>y. below h c y \<Longrightarrow> below h a y"
          using xin by (auto simp: c_def intro: below.deeper)
        have in2: "\<And>b x. x \<in> set (h2 b) \<Longrightarrow> below h b x"
        proof -
          fix b x assume x: "x \<in> set (h2 b)"
          show "below h b x"
          proof (cases "b = a")
            case True
            then have "x \<in> set (h a) \<or> x \<in> set (h1 c)" using x by (auto simp: h2a)
            then show ?thesis
              using own1 [of x c] c_below True by (auto intro: below.top)
          next
            case False
            then show ?thesis using own1 [of x b] x by (simp add: h2b)
          qed
        qed
        have foreign: "\<forall>b. \<forall>y \<in> set (h' b). below h b y"
        proof (intro allI ballI)
          fix b y assume "y \<in> set (h' b)"
          then have "below h2 b y" by (rule foreign2)
          then show "below h b y"
            by (rule below_closed [rotated]) (rule in2)
        qed
        have desc: "\<forall>x \<in> set (drop i (h a)). \<forall>y. below h (children x) y \<longrightarrow> y \<in> set (h' a)"
        proof (intro ballI allI impI)
          fix x y assume "x \<in> set (drop i (h a))" and y: "below h (children x) y"
          then have "x = h a ! i \<or> x \<in> set (drop (Suc i) (h a))"
            using True by (auto simp: Cons_nth_drop_Suc [symmetric])
          then show "y \<in> set (h' a)"
          proof
            assume "x = h a ! i"
            then have "y \<in> set (h1 c)"
              using all_c y by (simp add: c_def)
            then have "y \<in> set (h2 a)" by (simp add: h2a)
            then show ?thesis using pre2 [of a] by (auto dest: set_mono_prefix)
          next
            assume "x \<in> set (drop (Suc i) (h a))"
            then have "x \<in> set (drop (Suc i) (h2 a))"
              using True by (simp add: h2a)
            moreover have "below h2 (children x) y"
              using y by (rule below_mono [OF sub12])
            ultimately show ?thesis by (rule desc2)
          qed
        qed
        have own: "\<forall>k. length (h a) \<le> k \<and> k < length (h' a) \<longrightarrow>
            (\<exists>j < k. h' a ! k \<in> set (h' (children (h' a ! j))))"
        proof (intro allI impI)
          fix k assume k: "length (h a) \<le> k \<and> k < length (h' a)"
          show "\<exists>j < k. h' a ! k \<in> set (h' (children (h' a ! j)))"
          proof (cases "length (h2 a) \<le> k")
            case True
            then show ?thesis using own2 k by simp
          next
            case False
            then have k2: "k < length (h2 a)" by simp
            obtain zs where zs: "h' a = h2 a @ zs"
              using pre2 [of a] by (auto simp: prefix_def)
            have "h' a ! k = h2 a ! k" using k2 by (simp add: zs nth_append)
            also have "\<dots> = h1 c ! (k - length (h a))"
              using k by (simp add: h2a nth_append)
            finally have "h' a ! k = h1 c ! (k - length (h a))" .
            moreover have "k - length (h a) < length (h1 c)"
              using k k2 by (simp add: h2a less_diff_conv2)
            ultimately have "h' a ! k \<in> set (h1 c)"
              by simp
            moreover have "set (h1 c) \<subseteq> set (h' c)"
              using pre2 [of c] h2b [OF ca] by (auto dest: set_mono_prefix)
            moreover have "h' a ! i = h a ! i"
              using \<open>i < length (h a)\<close> by (simp add: zs h2a nth_append)
            ultimately have "h' a ! k \<in> set (h' (children (h' a ! i)))"
              by (auto simp: c_def)
            moreover have "i < k" using k \<open>i < length (h a)\<close> by simp
            ultimately show ?thesis by blast
          qed
        qed
        have "loop_post rank h a i h'"
          unfolding loop_post_def using acy' pre frame foreign desc own by blast
        with run inv' show ?thesis by blast
      qed
    qed
  qed
qed

lemma flatten_loop_total:
  fixes h :: "('a, 'c) heap" and inv :: "'a \<Rightarrow> ('a, 'c) org list \<Rightarrow> bool"
  assumes "\<forall>a xs i ys. inv a xs \<and> i < length xs \<and> inv (children (xs ! i)) ys
      \<longrightarrow> inv a (xs @ ys)"
    and "acyclic_below rank h" and "\<forall>b. inv b (h b)"
  shows "\<exists>h'. flatten_loop h a a i = Some (h', a) \<and> loop_post rank h a i h'
      \<and> (\<forall>b. inv b (h' b))"
  by (rule flatten_loop_total_aux [OF assms(1) refl assms(2) assms(3) refl])


lemma fold_max_ge: "x \<in> set xs \<Longrightarrow> x \<le> fold max xs (m :: nat)"
proof (induction xs arbitrary: m)
  case Nil
  then show ?case by simp
next
  case (Cons y ys)
  have mono: "\<And>a. a \<le> fold max ys (a :: nat)"
  proof -
    fix a :: nat show "a \<le> fold max ys a"
      by (induction ys arbitrary: a) (auto intro: order_trans [OF max.cobounded2])
  qed
  show ?case
  proof (cases "x = y")
    case True
    then show ?thesis using mono [of "max y m"] by simp
  next
    case False
    then show ?thesis using Cons by simp
  qed
qed

lemma subforest_snoc:
  "subforest ts (p @ [i]) =
     (if i < length (subforest ts p) then tree_children (subforest ts p ! i) else [])"
  by (induction ts p rule: subforest.induct) auto

lemma height_children: "forest_height (tree_children t) < height t"
  by (cases t) (simp add: forest_height_def)

lemma heap_of_acyclic: "acyclic_below (\<lambda>p. forest_height (subforest ts p)) (heap_of ts)"
  unfolding acyclic_below_def
proof (intro allI ballI)
  fix p x assume "x \<in> set (heap_of ts p)"
  then obtain i where i: "i < length (subforest ts p)" and x: "children x = p @ [i]"
    by (auto simp: heap_of_def)
  have "forest_height (subforest ts (p @ [i])) < height (subforest ts p ! i)"
    using i by (simp add: subforest_snoc height_children)
  also have "\<dots> \<le> forest_height (subforest ts p)"
    unfolding forest_height_def using i by (intro fold_max_ge) simp
  finally show "forest_height (subforest ts (children x)) < forest_height (subforest ts p)"
    by (simp add: x)
qed

lemma family_order_append:
  assumes xs: "family_order a xs" and i: "i < length xs"
    and ys: "family_order (children (xs ! i)) ys"
  shows "family_order a (xs @ ys)"
  unfolding family_order_def
proof (intro allI impI)
  fix k assume k: "k < length (xs @ ys)"
  show "\<exists>q m. children ((xs @ ys) ! k) = q @ [m]
        \<and> (q = a \<or> (\<exists>j < k. children ((xs @ ys) ! j) = q))
        \<and> (m = 0 \<or> (\<exists>j < k. children ((xs @ ys) ! j) = q @ [m - 1]))"
  proof (cases "k < length xs")
    case True
    with xs obtain q m where c: "children (xs ! k) = q @ [m]"
      and p: "q = a \<or> (\<exists>j < k. children (xs ! j) = q)"
      and l: "m = 0 \<or> (\<exists>j < k. children (xs ! j) = q @ [m - 1])"
      unfolding family_order_def by blast
    have same: "\<And>j. j \<le> k \<Longrightarrow> (xs @ ys) ! j = xs ! j"
      using True by (simp add: nth_append)
    from c p l show ?thesis
      using same by (metis less_imp_le order_refl)
  next
    case False
    define k' where "k' = k - length xs"
    have k': "k' < length ys" and kk: "k = length xs + k'"
      using False k by (simp_all add: k'_def)
    with ys obtain q m where c: "children (ys ! k') = q @ [m]"
      and p: "q = children (xs ! i) \<or> (\<exists>j < k'. children (ys ! j) = q)"
      and l: "m = 0 \<or> (\<exists>j < k'. children (ys ! j) = q @ [m - 1])"
      unfolding family_order_def by blast
    have at: "\<And>j. (xs @ ys) ! (length xs + j) = ys ! j"
      by (simp add: nth_append)
    have c': "children ((xs @ ys) ! k) = q @ [m]"
      using c by (simp add: kk at)
    have p': "\<exists>j < k. children ((xs @ ys) ! j) = q"
      using p
    proof
      assume "q = children (xs ! i)"
      then have "children ((xs @ ys) ! i) = q" using i by (simp add: nth_append)
      moreover have "i < k" using i kk by simp
      ultimately show ?thesis by blast
    next
      assume "\<exists>j < k'. children (ys ! j) = q"
      then obtain j where "j < k'" and "children (ys ! j) = q" by blast
      then have "length xs + j < k" and "children ((xs @ ys) ! (length xs + j)) = q"
        by (simp_all add: kk at)
      then show ?thesis by blast
    qed
    have l': "m = 0 \<or> (\<exists>j < k. children ((xs @ ys) ! j) = q @ [m - 1])"
      using l
    proof
      assume "m = 0"
      then show ?thesis by simp
    next
      assume "\<exists>j < k'. children (ys ! j) = q @ [m - 1]"
      then obtain j where "j < k'" and "children (ys ! j) = q @ [m - 1]" by blast
      then have "length xs + j < k" and "children ((xs @ ys) ! (length xs + j)) = q @ [m - 1]"
        by (simp_all add: kk at)
      then show ?thesis by blast
    qed
    from c' p' l' show ?thesis by blast
  qed
qed

lemma family_order_heap_of: "family_order b (heap_of ts b)"
  unfolding family_order_def
proof (intro allI impI)
  fix k assume k: "k < length (heap_of ts b)"
  then have c: "\<And>j. j \<le> k \<Longrightarrow> children (heap_of ts b ! j) = b @ [j]"
    by (simp add: heap_of_def)
  have "k = 0 \<or> (\<exists>j < k. children (heap_of ts b ! j) = b @ [k - 1])"
  proof (cases k)
    case 0
    then show ?thesis by simp
  next
    case (Suc m)
    then have "m < k" and "children (heap_of ts b ! m) = b @ [k - 1]"
      using c [of m] by simp_all
    then show ?thesis by blast
  qed
  with c [of k] show "\<exists>q i. children (heap_of ts b ! k) = q @ [i]
        \<and> (q = b \<or> (\<exists>j < k. children (heap_of ts b ! j) = q))
        \<and> (i = 0 \<or> (\<exists>j < k. children (heap_of ts b ! j) = q @ [i - 1]))"
    by blast
qed

lemma flatten_heap_of_ordered:
  "\<exists>h'. flatten_orgs (heap_of ts) p = Some (h', p)
      \<and> loop_post (\<lambda>q. forest_height (subforest ts q)) (heap_of ts) p 0 h'
      \<and> (\<forall>b. family_order b (h' b))"
  unfolding flatten_orgs_def
proof (rule flatten_loop_total [where inv = family_order, OF _ heap_of_acyclic])
  show "\<forall>a xs i ys. family_order a xs \<and> i < length xs \<and> family_order (children (xs ! i)) ys
      \<longrightarrow> family_order a (xs @ ys)"
    by (blast intro: family_order_append)
  show "\<forall>b. family_order b (heap_of ts b)"
    by (simp add: family_order_heap_of)
qed

lemma flatten_heap_of:
  "\<exists>h'. flatten_orgs (heap_of ts) p = Some (h', p)
      \<and> loop_post (\<lambda>q. forest_height (subforest ts q)) (heap_of ts) p 0 h'"
  using flatten_heap_of_ordered by blast

lemma heap_of_children_length:
  "x \<in> set (heap_of ts p) \<Longrightarrow> length (children x) = Suc (length p)"
  by (auto simp: heap_of_def)



lemma below_iff:
  "below h a y \<longleftrightarrow> y \<in> set (h a) \<or> (\<exists>x \<in> set (h a). below h (children x) y)"
  by (auto dest: below_cases intro: below.intros)

lemma heap_of_mem:
  "x \<in> set (heap_of ts p) \<longleftrightarrow>
     (\<exists>i < length (subforest ts p).
        x = \<lparr>children = p @ [i], callings = tree_callings (subforest ts p ! i)\<rparr>)"
  by (auto simp: heap_of_def)


lemma pre_callings_unfold:
  "pre_callings t = tree_callings t @ concat (map pre_callings (tree_children t))"
  by (cases t) simp

lemma records_below:
  "(\<exists>y. below (heap_of ts) p y \<and> r \<in> set (callings y))
     \<longleftrightarrow> r \<in> set (concat (map pre_callings (subforest ts p)))"
proof (induction "forest_height (subforest ts p)" arbitrary: p rule: less_induct)
  case less
  let ?F = "subforest ts p"
  have step: "(\<exists>y. below (heap_of ts) (p @ [i]) y \<and> r \<in> set (callings y))
      \<longleftrightarrow> r \<in> set (concat (map pre_callings (tree_children (?F ! i))))"
    if "i < length ?F" for i
  proof -
    have "\<lparr>children = p @ [i], callings = tree_callings (?F ! i)\<rparr> \<in> set (heap_of ts p)"
      using that by (auto simp: heap_of_def)
    then have "forest_height (subforest ts (p @ [i])) < forest_height ?F"
      using heap_of_acyclic [of ts] by (fastforce simp: acyclic_below_def)
    from less [OF this] show ?thesis
      using that by (simp add: subforest_snoc)
  qed
  have "(\<exists>y. below (heap_of ts) p y \<and> r \<in> set (callings y))
      \<longleftrightarrow> (\<exists>i < length ?F. r \<in> set (tree_callings (?F ! i))
            \<or> (\<exists>y. below (heap_of ts) (p @ [i]) y \<and> r \<in> set (callings y)))"
    (is "?L \<longleftrightarrow> ?R")
  proof
    assume ?L
    then obtain y where y: "below (heap_of ts) p y" and r: "r \<in> set (callings y)" by blast
    from y have "y \<in> set (heap_of ts p) \<or> (\<exists>x \<in> set (heap_of ts p). below (heap_of ts) (children x) y)"
      by (rule below_cases)
    then show ?R
    proof
      assume "y \<in> set (heap_of ts p)"
      then show ?R using r by (auto simp: heap_of_mem)
    next
      assume "\<exists>x \<in> set (heap_of ts p). below (heap_of ts) (children x) y"
      then obtain i where "i < length ?F" and "below (heap_of ts) (p @ [i]) y"
        by (auto simp: heap_of_mem)
      then show ?R using r by blast
    qed
  next
    assume ?R
    then obtain i where i: "i < length ?F"
      and d: "r \<in> set (tree_callings (?F ! i))
            \<or> (\<exists>y. below (heap_of ts) (p @ [i]) y \<and> r \<in> set (callings y))"
      by blast
    define x :: "(nat list, 'a) org" where "x = \<lparr>children = p @ [i], callings = tree_callings (?F ! i)\<rparr>"
    have x: "x \<in> set (heap_of ts p)" using i by (auto simp: heap_of_mem x_def)
    from d show ?L
    proof
      assume "r \<in> set (tree_callings (?F ! i))"
      then have "r \<in> set (callings x)" by (simp add: x_def)
      with x show ?L by (blast intro: below.top)
    next
      assume "\<exists>y. below (heap_of ts) (p @ [i]) y \<and> r \<in> set (callings y)"
      then obtain y where "below (heap_of ts) (children x) y" and "r \<in> set (callings y)"
        by (auto simp: x_def)
      with x show ?L by (blast intro: below.deeper)
    qed
  qed
  also have "\<dots> \<longleftrightarrow> (\<exists>i < length ?F. r \<in> set (pre_callings (?F ! i)))"
  proof -
    have "r \<in> set (pre_callings (?F ! i)) \<longleftrightarrow> r \<in> set (tree_callings (?F ! i))
        \<or> (\<exists>y. below (heap_of ts) (p @ [i]) y \<and> r \<in> set (callings y))"
      if "i < length ?F" for i
      using step [OF that] pre_callings_unfold [of "?F ! i"] by auto
    then show ?thesis by blast
  qed
  also have "\<dots> \<longleftrightarrow> (\<exists>t \<in> set ?F. r \<in> set (pre_callings t))"
    by (metis in_set_conv_nth)
  also have "\<dots> \<longleftrightarrow> r \<in> set (concat (map pre_callings ?F))"
    by auto
  finally show ?case .
qed


text \<open>Nothing is lost and nothing foreign enters: as a set, the flattened calling list is
  the set of the records of the tree. How often a record occurs is another matter.\<close>

lemma flattened_callings_records:
  "\<exists>cs. flattened_callings ts = Some cs \<and> set cs = set (concat (map pre_callings ts))"
proof -
  obtain h' where run: "flatten_orgs (heap_of ts) [] = Some (h', [])"
    and post: "loop_post (\<lambda>q. forest_height (subforest ts q)) (heap_of ts) [] 0 h'"
    using flatten_heap_of by blast
  have mem: "y \<in> set (h' []) \<longleftrightarrow> below (heap_of ts) [] y" for y
  proof
    assume "y \<in> set (h' [])"
    then show "below (heap_of ts) [] y" using post by (simp add: loop_post_def)
  next
    assume "below (heap_of ts) [] y"
    then have "y \<in> set (heap_of ts []) \<or> (\<exists>x \<in> set (heap_of ts []). below (heap_of ts) (children x) y)"
      by (rule below_cases)
    moreover have "set (heap_of ts []) \<subseteq> set (h' [])"
      using post by (auto simp: loop_post_def dest: set_mono_prefix)
    ultimately show "y \<in> set (h' [])"
      using post by (auto simp: loop_post_def)
  qed
  have "r \<in> set (concat (map callings (h' []))) \<longleftrightarrow> r \<in> set (concat (map pre_callings ts))" for r
    using records_below [of ts "[]" r] by (auto simp: mem)
  then have "set (concat (map callings (h' []))) = set (concat (map pre_callings ts))"
    by blast
  then show ?thesis by (simp add: flattened_callings_def run)
qed

text \<open>
  C10. Argument aliasing in flattening: for the heap of every decoded forest and every list
  \<open>p\<close> of it, \<open>_flatten_orgs\<close> returns, and what it returns is the very list object it
  was given. That list was extended in place: its old contents are a prefix of its new
  contents, it now holds exactly the nodes below it (its own nodes and all their
  descendants), and it is strictly longer as soon as one of its nodes has a child.
\<close>
theorem flatten_orgs_extends_its_argument:
  fixes ts :: "'c org_tree list"
  shows "\<exists>h'. flatten_orgs (heap_of ts) p = Some (h', p)
      \<and> prefix (heap_of ts p) (h' p)
      \<and> (\<forall>y. y \<in> set (h' p) \<longleftrightarrow> below (heap_of ts) p y)
      \<and> ((\<exists>x \<in> set (heap_of ts p). heap_of ts (children x) \<noteq> [])
            \<longrightarrow> length (heap_of ts p) < length (h' p))"
proof -
  obtain h' where run: "flatten_orgs (heap_of ts) p = Some (h', p)"
    and post: "loop_post (\<lambda>q. forest_height (subforest ts q)) (heap_of ts) p 0 h'"
    using flatten_heap_of by blast
  have pre: "prefix (heap_of ts p) (h' p)"
    using post by (auto simp: loop_post_def)
  have mem: "\<forall>y. y \<in> set (h' p) \<longleftrightarrow> below (heap_of ts) p y"
  proof (intro allI iffI)
    fix y assume "y \<in> set (h' p)"
    then show "below (heap_of ts) p y" using post by (simp add: loop_post_def)
  next
    fix y assume "below (heap_of ts) p y"
    then have "y \<in> set (heap_of ts p) \<or> (\<exists>x \<in> set (heap_of ts p). below (heap_of ts) (children x) y)"
      by (rule below_cases)
    then show "y \<in> set (h' p)"
      using post pre by (auto simp: loop_post_def dest: set_mono_prefix)
  qed
  have "length (heap_of ts p) < length (h' p)"
    if "\<exists>x \<in> set (heap_of ts p). heap_of ts (children x) \<noteq> []"
  proof -
    from that obtain x y where x: "x \<in> set (heap_of ts p)" and y: "y \<in> set (heap_of ts (children x))"
      by (metis list.set_intros(1) neq_Nil_conv)
    have "length (children y) = Suc (Suc (length p))"
      using heap_of_children_length [OF y] heap_of_children_length [OF x] by simp
    then have "y \<notin> set (heap_of ts p)"
      using heap_of_children_length [of y ts p] by auto
    moreover have "y \<in> set (h' p)"
      using mem x y by (blast intro: below.intros)
    ultimately have "h' p \<noteq> heap_of ts p" by auto
    with pre show ?thesis
      by (metis prefix_length_le le_neq_implies_less prefix_length_prefix prefix_order.eq_iff order_refl)
  qed
  with run pre mem show ?thesis by blast
qed



lemma deep_orgs_flattened: "flattened_callings deep_orgs = Some [1, 2, 3, 3]"
  by code_simp





text \<open>The caller's list of two units holds the child as a third element after the call.\<close>
theorem flatten_orgs_extends_its_argument_witness:
  "\<exists>h'. flatten_orgs (heap_of sibling_orgs) [] = Some (h', [])
      \<and> prefix [\<lparr>children = [0], callings = [1]\<rparr>, \<lparr>children = [1], callings = [3]\<rparr>] (h' [])
      \<and> \<lparr>children = [0, 0], callings = [2]\<rparr> \<in> set (h' [])
      \<and> 2 < length (h' [])"
proof -
  have root: "heap_of sibling_orgs [] = [\<lparr>children = [0], callings = [1]\<rparr>, \<lparr>children = [1], callings = [3]\<rparr>]"
    by (simp add: sibling_orgs_def heap_of_def)
  have kid: "heap_of sibling_orgs [0] = [\<lparr>children = [0, 0], callings = [2]\<rparr>]"
    by (simp add: sibling_orgs_def heap_of_def)
  have "below (heap_of sibling_orgs) [] \<lparr>children = [0, 0], callings = [2]\<rparr>"
    by (rule below.deeper [of "\<lparr>children = [0], callings = [1]\<rparr>"]) (auto simp: root kid intro: below.top)
  then show ?thesis
    using flatten_orgs_extends_its_argument [of sibling_orgs "[]"]
    by (auto simp: root kid)
qed

section \<open>Dictionaries, lookup and dates\<close>

lemma map_of_setitem: "map_of (setitem d k v) = (map_of d)(k \<mapsto> v)"
  by (simp add: setitem_def update_conv')

lemma getitem_Inr: "getitem d k = Inr v \<longleftrightarrow> map_of d k = Some v"
  by (simp add: getitem_def split: option.splits)

lemma getitem_Inl: "getitem d k = Inl e \<longleftrightarrow> map_of d k = None \<and> e = KeyError k"
  by (auto simp: getitem_def split: option.splits)

lemma single_Inr: "single xs n = Inr y \<longleftrightarrow> xs = [y]"
  by (cases xs; cases "tl xs") (auto simp: single_def)

lemma single_Inl:
  "length xs \<noteq> 1 \<Longrightarrow> single xs n =
     Inl (if xs = [] then ItemNotFoundException (''No '' @ n @ '' found'')
          else MultipleResponsesException (''More than one '' @ n @ '' found''))"
  by (cases xs; cases "tl xs") (auto simp: single_def)

lemma filter_raise_total:
  "\<forall>x \<in> set xs. p x = Inr (q x) \<Longrightarrow> filter_raise p xs = Inr (filter q xs)"
  by (induction xs) auto

lemma filter_raise_Inr:
  "filter_raise p xs = Inr ys \<Longrightarrow> ys = filter (\<lambda>x. p x = Inr True) xs"
proof (induction xs arbitrary: ys)
  case Nil
  then show ?case by simp
next
  case (Cons x xs)
  then show ?case
    by (auto split: sum.splits if_splits)
qed

lemma get_calling_by_name_Inr:
  assumes "get_calling_by_name st position name condition = Inr calling"
  shows "calling \<in> set (self_callings st)
    \<and> position_and_name position name (objects st calling) = Inr True
    \<and> condition (objects st calling) = Inr True"
proof -
  from assms obtain cs ms where cs: "filter_raise (\<lambda>c. position_and_name position name (objects st c)) (self_callings st) = Inr cs"
    and ms: "filter_raise (\<lambda>c. condition (objects st c)) cs = Inr ms"
    and s: "single ms ''calling'' = Inr calling"
    by (auto simp: get_calling_by_name_def split: sum.splits)
  from s have "ms = [calling]" by (simp add: single_Inr)
  then have "calling \<in> set (filter (\<lambda>c. condition (objects st c) = Inr True) cs)"
    using filter_raise_Inr [OF ms] by simp
  then have "condition (objects st calling) = Inr True" and "calling \<in> set cs" by auto
  moreover from \<open>calling \<in> set cs\<close> have "calling \<in> set (filter (\<lambda>c. position_and_name position name (objects st c) = Inr True) (self_callings st))"
    using filter_raise_Inr [OF cs] by simp
  ultimately show ?thesis by auto
qed

lemma assign_simps [simp]:
  "objects (assign st c k v) = (objects st)(c := setitem (objects st c) k v)"
  "self_callings (assign st c k v) = self_callings st"
  "requests (assign st c k v) = requests st"
  "unit_number (assign st c k v) = unit_number st"
  by (simp_all add: assign_def)

lemma digit_ascii: "n < 10 \<Longrightarrow> digit n \<in> set ''0123456789''"
  unfolding digit_def by (rule nth_mem) simp

lemma decimal_ascii: "ascii_digits (decimal n)"
proof (induction n rule: decimal.induct)
  case (1 n)
  show ?case
  proof (cases "n < 10")
    case True
    then show ?thesis
      using digit_ascii [of n] by (subst decimal.simps) (simp add: ascii_digits_def)
  next
    case False
    then show ?thesis
      using 1 digit_ascii [of "n mod 10"]
      by (subst decimal.simps) (simp add: ascii_digits_def)
  qed
qed

lemma decimal_length_1: "n < 10 \<Longrightarrow> length (decimal n) = 1"
  by (subst decimal.simps) simp

lemma decimal_length_2: "10 \<le> n \<Longrightarrow> n < 100 \<Longrightarrow> length (decimal n) = 2"
  by (subst decimal.simps) (simp add: decimal_length_1)

lemma decimal_length_3: "100 \<le> n \<Longrightarrow> n < 1000 \<Longrightarrow> length (decimal n) = 3"
  by (subst decimal.simps) (simp add: decimal_length_2)

lemma decimal_length_4: "1000 \<le> n \<Longrightarrow> n < 10000 \<Longrightarrow> length (decimal n) = 4"
  by (subst decimal.simps) (simp add: decimal_length_3)

lemma decimal_length_le_2: "n < 100 \<Longrightarrow> length (decimal n) \<le> 2"
  using decimal_length_1 [of n] decimal_length_2 [of n] by (cases "n < 10") auto

lemma zfill_length: "length (zfill w s) = max w (length s)"
  by (simp add: zfill_def)

lemma ascii_digits_append: "ascii_digits (xs @ ys) \<longleftrightarrow> ascii_digits xs \<and> ascii_digits ys"
  by (simp add: ascii_digits_def)

lemma zeros_ascii: "ascii_digits (replicate k (CHR ''0''))"
  by (induction k) (simp_all add: ascii_digits_def)

lemma zfill_ascii: "ascii_digits s \<Longrightarrow> ascii_digits (zfill w s)"
  by (simp add: zfill_def ascii_digits_append zeros_ascii)

lemma to_lcr_date_format_digits:
  assumes "four_digit_date d"
  shows "length (to_lcr_date_format d) = 8 \<and> ascii_digits (to_lcr_date_format d)"
proof -
  have y: "length (decimal (year d)) = 4"
    using assms by (intro decimal_length_4) (simp_all add: four_digit_date_def)
  have m: "length (decimal (month d)) \<le> 2" and dd: "length (decimal (day d)) \<le> 2"
    using assms by (auto intro!: decimal_length_le_2 simp: four_digit_date_def)
  have "length (to_lcr_date_format d) = 8"
    using y m dd by (simp add: to_lcr_date_format_def zfill_length)
  moreover have "ascii_digits (to_lcr_date_format d)"
    by (simp add: to_lcr_date_format_def ascii_digits_append zfill_ascii decimal_ascii)
  ultimately show ?thesis by simp
qed

lemma example_date: "to_lcr_date_format \<lparr>year = 2024, month = 3, day = 5\<rparr> = ''20240305''"
  by code_simp

lemma digit_ascii_digit: "n < 10 \<Longrightarrow> digit n = ascii_digit n"
proof -
  assume n: "n < 10"
  have table: "map digit [0..<10] = map ascii_digit [0..<10]"
    by code_simp
  have "digit n = map digit [0..<10] ! n"
    using n by simp
  also have "\<dots> = map ascii_digit [0..<10] ! n"
    by (simp only: table)
  also have "\<dots> = ascii_digit n"
    using n by simp
  finally show ?thesis .
qed

lemma decimal_1: "n < 10 \<Longrightarrow> decimal n = [ascii_digit n]"
  by (subst decimal.simps) (simp add: digit_ascii_digit)

lemma decimal_2: "10 \<le> n \<Longrightarrow> n < 100 \<Longrightarrow> decimal n = [ascii_digit (n div 10), ascii_digit (n mod 10)]"
  by (subst decimal.simps) (simp add: decimal_1 digit_ascii_digit)

lemma decimal_3:
  "100 \<le> n \<Longrightarrow> n < 1000 \<Longrightarrow>
     decimal n = [ascii_digit (n div 100), ascii_digit (n div 10 mod 10), ascii_digit (n mod 10)]"
  by (subst decimal.simps) (simp add: decimal_2 digit_ascii_digit div_mult2_eq [symmetric])

lemma decimal_4:
  "1000 \<le> n \<Longrightarrow> n < 10000 \<Longrightarrow>
     decimal n = [ascii_digit (n div 1000), ascii_digit (n div 100 mod 10),
                  ascii_digit (n div 10 mod 10), ascii_digit (n mod 10)]"
  by (subst decimal.simps) (simp add: decimal_3 digit_ascii_digit div_mult2_eq [symmetric])

lemma two_digits: "n < 100 \<Longrightarrow> zfill 2 (decimal n) = [ascii_digit (n div 10 mod 10), ascii_digit (n mod 10)]"
proof (cases "n < 10")
  case True
  have "CHR ''0'' = ascii_digit 0" by code_simp
  with True show ?thesis by (simp add: decimal_1 zfill_def)
next
  case False
  assume "n < 100"
  with False show ?thesis by (simp add: decimal_2 zfill_def)
qed

lemma to_lcr_date_format_yyyymmdd:
  assumes "four_digit_date d"
  shows "to_lcr_date_format d = yyyymmdd d"
proof -
  have y: "decimal (year d) = [ascii_digit (year d div 1000 mod 10), ascii_digit (year d div 100 mod 10),
                  ascii_digit (year d div 10 mod 10), ascii_digit (year d mod 10)]"
  proof -
    have "year d < 10 * 1000" using assms by (simp add: four_digit_date_def)
    then have "year d div 1000 < 10" by (simp add: less_mult_imp_div_less)
    then have "year d div 1000 mod 10 = year d div 1000" by simp
    then show ?thesis using assms by (simp add: decimal_4 four_digit_date_def)
  qed
  have m: "month d < 100" and dd: "day d < 100"
    using assms by (simp_all add: four_digit_date_def)
  show ?thesis
    by (simp add: to_lcr_date_format_def yyyymmdd_def y two_digits [OF m] two_digits [OF dd])
qed

lemma year_999: "to_lcr_date_format \<lparr>year = 999, month = 1, day = 1\<rparr> = ''9990101''"
  by code_simp

lemma yyyymmdd_999: "yyyymmdd \<lparr>year = 999, month = 1, day = 1\<rparr> = ''09990101''"
  by code_simp

section \<open>The workflows\<close>

text \<open>
  C5. Release write shape: whenever \<open>release_from_calling\<close> succeeds, the resolved record
  has \<open>vacant\<close> true and \<open>releaseDate\<close> today's date in the wire format, whatever its
  fields held before; its other fields and all other records are untouched, and exactly
  one request was issued, the write of that record. For a date from the year 1000 on
  the value written is \<open>YYYYMMDD\<close> as the specification words it: the four digits of
  the year, the two of the month and the two of the day, exactly eight ASCII digits;
  2024-03-05 becomes \<open>20240305\<close>.
\<close>
theorem release_write_shape:
  assumes "release_from_calling post today st position lastNameCommaFirst = (Inr u, st')"
  shows "\<exists>calling. get_calling_by_name st position lastNameCommaFirst always = Inr calling
      \<and> map_of (objects st' calling) ''vacant'' = Some (JBool True)
      \<and> map_of (objects st' calling) ''releaseDate'' = Some (JStr (to_lcr_date_format today))
      \<and> (\<forall>k. k \<noteq> ''vacant'' \<and> k \<noteq> ''releaseDate''
            \<longrightarrow> map_of (objects st' calling) k = map_of (objects st calling) k)
      \<and> (\<forall>c. c \<noteq> calling \<longrightarrow> objects st' c = objects st c)
      \<and> requests st' = requests st @ [Post ''services/orgs/callings'' (objects st' calling)]
      \<and> (four_digit_date today
            \<longrightarrow> map_of (objects st' calling) ''releaseDate'' = Some (JStr (yyyymmdd today))
              \<and> length (yyyymmdd today) = 8 \<and> ascii_digits (yyyymmdd today))
      \<and> yyyymmdd \<lparr>year = 2024, month = 3, day = 5\<rparr> = ''20240305''"
proof -
  from assms obtain calling where c: "get_calling_by_name st position lastNameCommaFirst always = Inr calling"
    by (auto simp: release_from_calling_def split: sum.splits)
  define body where "body = setitem (setitem (objects st calling) ''vacant'' (JBool True))
      ''releaseDate'' (JStr (to_lcr_date_format today))"
  from assms c have st': "st' = (assign (assign st calling ''vacant'' (JBool True)) calling
        ''releaseDate'' (JStr (to_lcr_date_format today)))
      \<lparr>requests := requests st @ [Post ''services/orgs/callings'' body]\<rparr>"
    by (auto simp: release_from_calling_def post_request_def Let_def body_def split: sum.splits)
  have obj: "objects st' = (objects st)(calling := body)"
    by (simp add: st' body_def)
  have "map_of body ''vacant'' = Some (JBool True)"
    and "map_of body ''releaseDate'' = Some (JStr (to_lcr_date_format today))"
    and "\<forall>k. k \<noteq> ''vacant'' \<and> k \<noteq> ''releaseDate'' \<longrightarrow> map_of body k = map_of (objects st calling) k"
    by (simp_all add: body_def map_of_setitem)
  moreover have "requests st' = requests st @ [Post ''services/orgs/callings'' (objects st' calling)]"
    by (simp add: st' body_def)
  moreover have "to_lcr_date_format today = yyyymmdd today
      \<and> length (yyyymmdd today) = 8 \<and> ascii_digits (yyyymmdd today)"
    if "four_digit_date today"
    using to_lcr_date_format_digits [OF that] to_lcr_date_format_yyyymmdd [OF that] by simp
  moreover have "yyyymmdd \<lparr>year = 2024, month = 3, day = 5\<rparr> = ''20240305''"
    by code_simp
  ultimately show ?thesis
    using c by (auto simp: obj)
qed


lemma appoint_Inr:
  assumes "appoint post st calling member d s = (Inr response, st')"
  shows "\<exists>c body. map_of member ''id'' = Some c
      \<and> body = setitem (setitem (setitem (setitem (setitem (objects st calling)
            ''activeDate'' (JStr (to_lcr_date_format d))) ''memberId'' c)
            ''setApart'' (JBool s)) ''vacant'' (JBool False)) ''hidden'' (JBool False)
      \<and> post ''services/orgs/callings'' body = Inr response
      \<and> objects st' = (objects st)(calling := body)
      \<and> requests st' = requests st @ [Post ''services/orgs/callings'' body]"
  using assms
  by (auto simp: appoint_def post_request_def Let_def getitem_Inr split: sum.splits)

text \<open>
  C4, as amended. Appoint write shape: whenever \<open>call_to\<close> succeeds, the candidate lookup
  returned exactly one member, and the record submitted in the write carries
  \<open>memberId\<close> that member's \<open>id\<close>, \<open>setApart\<close> the given flag, \<open>vacant\<close> false, \<open>hidden\<close>
  false and \<open>activeDate\<close> the effective date as \<open>strftime\<close> prints it; for an effective
  date from the year 1000 on that is \<open>YYYYMMDD\<close> as the specification words it. The
  call issued exactly two requests: the candidate lookup, then the write.
\<close>
theorem call_to_write_shape:
  assumes "call_to get post st position lastNameCommaFirst d s include_hidden = (Inr response, st')"
  shows "\<exists>calling query member c body.
        get_calling_by_name st position None (call_to_condition lastNameCommaFirst include_hidden)
          = Inr calling
      \<and> get ''services/orgs/lookup-calling-candidate-by-name'' query = Inr [member]
      \<and> map_of member ''id'' = Some c
      \<and> requests st' = requests st
            @ [Get ''services/orgs/lookup-calling-candidate-by-name'' query,
               Post ''services/orgs/callings'' body]
      \<and> post ''services/orgs/callings'' body = Inr response
      \<and> body = objects st' calling
      \<and> map_of body ''activeDate'' = Some (JStr (to_lcr_date_format d))
      \<and> (four_digit_date d \<longrightarrow> map_of body ''activeDate'' = Some (JStr (yyyymmdd d)))
      \<and> map_of body ''memberId'' = Some c
      \<and> map_of body ''setApart'' = Some (JBool s)
      \<and> map_of body ''vacant'' = Some (JBool False)
      \<and> map_of body ''hidden'' = Some (JBool False)"
proof -
  from assms obtain calling q where c: "get_calling_by_name st position None
        (call_to_condition lastNameCommaFirst include_hidden) = Inr calling"
    and q: "candidate_query st calling lastNameCommaFirst = Inr q"
    by (auto simp: call_to_def split: sum.splits)
  define query where "query = setitem q ''lang'' (JStr ''eng'')"
  define st1 where "st1 = st\<lparr>requests := requests st
      @ [Get ''services/orgs/lookup-calling-candidate-by-name'' query]\<rparr>"
  from assms c q obtain members member where
      g: "get ''services/orgs/lookup-calling-candidate-by-name'' query = Inr members"
      and m: "single members ''member'' = Inr member"
      and a: "appoint post st1 calling member d s = (Inr response, st')"
    by (auto simp: call_to_def get_request_def Let_def query_def st1_def split: sum.splits)
  from m have members: "members = [member]" by (simp add: single_Inr)
  from appoint_Inr [OF a] obtain c' body where
      id: "map_of member ''id'' = Some c'"
      and body: "body = setitem (setitem (setitem (setitem (setitem (objects st1 calling)
            ''activeDate'' (JStr (to_lcr_date_format d))) ''memberId'' c')
            ''setApart'' (JBool s)) ''vacant'' (JBool False)) ''hidden'' (JBool False)"
      and p: "post ''services/orgs/callings'' body = Inr response"
      and o: "objects st' = (objects st1)(calling := body)"
      and r: "requests st' = requests st1 @ [Post ''services/orgs/callings'' body]"
    by blast
  have "map_of body ''activeDate'' = Some (JStr (to_lcr_date_format d))"
    and "map_of body ''memberId'' = Some c'"
    and "map_of body ''setApart'' = Some (JBool s)"
    and "map_of body ''vacant'' = Some (JBool False)"
    and "map_of body ''hidden'' = Some (JBool False)"
    by (simp_all add: body map_of_setitem)
  moreover have "four_digit_date d \<longrightarrow> map_of body ''activeDate'' = Some (JStr (yyyymmdd d))"
    by (simp add: body map_of_setitem to_lcr_date_format_yyyymmdd)
  moreover have "requests st' = requests st
            @ [Get ''services/orgs/lookup-calling-candidate-by-name'' query,
               Post ''services/orgs/callings'' body]"
    by (simp add: r st1_def)
  moreover have "body = objects st' calling" by (simp add: o)
  ultimately show ?thesis
    using c g members id p by blast
qed

text \<open>
  C2. Abort before write on ambiguity: when the candidate lookup of a \<open>call_to\<close> returns
  no member or more than one, the call raises \<open>ItemNotFoundException\<close> or
  \<open>MultipleResponsesException\<close> respectively, the only request issued is the lookup
  itself, and no calling record has been changed.
\<close>
theorem call_to_aborts_before_write:
  assumes "get_calling_by_name st position None
             (call_to_condition lastNameCommaFirst include_hidden) = Inr calling"
    and "candidate_query st calling lastNameCommaFirst = Inr query"
    and "get ''services/orgs/lookup-calling-candidate-by-name''
           (setitem query ''lang'' (JStr ''eng'')) = Inr members"
    and "length members \<noteq> 1"
  shows "\<exists>st'. call_to get post st position lastNameCommaFirst d s include_hidden =
           (Inl (if members = [] then ItemNotFoundException ''No member found''
                 else MultipleResponsesException ''More than one member found''), st')
      \<and> objects st' = objects st
      \<and> self_callings st' = self_callings st
      \<and> requests st' = requests st
            @ [Get ''services/orgs/lookup-calling-candidate-by-name''
                 (setitem query ''lang'' (JStr ''eng''))]"
  using assms(1-3) single_Inl [OF assms(4), of "''member''"]
  by (simp add: call_to_def get_request_def Let_def)

lemma call_to_condition_Inr_True:
  "call_to_condition n include_hidden d = Inr True \<longleftrightarrow>
     (\<exists>v. map_of d ''vacant'' = Some v
        \<and> (truthy v \<or> map_of d ''memberName'' = Some (JStr n))
        \<and> (\<exists>h. map_of d ''hidden'' = Some h \<and> (\<not> truthy h \<or> include_hidden)))"
  by (auto simp: call_to_condition_def getitem_def split: option.splits sum.splits)

lemma call_to_condition_total:
  assumes "map_of r ''memberName'' \<noteq> None" "map_of r ''vacant'' \<noteq> None" "map_of r ''hidden'' \<noteq> None"
  shows "call_to_condition n ih r =
     Inr ((case map_of r ''vacant'' of
                None \<Rightarrow> False
              | Some v \<Rightarrow> truthy v \<or> map_of r ''memberName'' = Some (JStr n))
          \<and> (case map_of r ''hidden'' of
                None \<Rightarrow> False
              | Some h \<Rightarrow> ih \<or> \<not> truthy h))"
  using assms by (auto simp: call_to_condition_def getitem_def split: option.splits)

lemma filter_raise_filter:
  assumes "\<forall>x \<in> set xs. P x \<longrightarrow> p x = Inr (q x)"
  shows "filter_raise p (filter P xs) = Inr (filter (\<lambda>x. P x \<and> q x) xs)"
  using assms by (induction xs) auto

lemma target_resolution:
  assumes "\<forall>c \<in> set (self_callings st). appointable_shape position (objects st c)"
  shows "get_calling_by_name st position None (call_to_condition n ih)
     = single (appointment_targets st position n ih) ''calling''"
proof -
  let ?pos = "\<lambda>c. map_of (objects st c) ''position'' = Some (JStr position)"
  have "\<forall>c \<in> set (self_callings st). position_and_name position None (objects st c) = Inr (?pos c)"
  proof
    fix c assume "c \<in> set (self_callings st)"
    with assms have "appointable_shape position (objects st c)" by blast
    then show "position_and_name position None (objects st c) = Inr (?pos c)"
      by (auto simp: appointable_shape_def position_and_name_def getitem_def split: option.splits)
  qed
  then have first: "filter_raise (\<lambda>c. position_and_name position None (objects st c))
      (self_callings st) = Inr (filter ?pos (self_callings st))"
    by (rule filter_raise_total)
  have "\<forall>c \<in> set (self_callings st). ?pos c \<longrightarrow> call_to_condition n ih (objects st c) =
     Inr ((case map_of (objects st c) ''vacant'' of
                None \<Rightarrow> False
              | Some v \<Rightarrow> truthy v \<or> map_of (objects st c) ''memberName'' = Some (JStr n))
          \<and> (case map_of (objects st c) ''hidden'' of
                None \<Rightarrow> False
              | Some h \<Rightarrow> ih \<or> \<not> truthy h))"
  proof (intro ballI impI)
    fix c assume "c \<in> set (self_callings st)" and "?pos c"
    with assms have "map_of (objects st c) ''memberName'' \<noteq> None"
      "map_of (objects st c) ''vacant'' \<noteq> None" "map_of (objects st c) ''hidden'' \<noteq> None"
      by (auto simp: appointable_shape_def)
    then show "call_to_condition n ih (objects st c) =
     Inr ((case map_of (objects st c) ''vacant'' of
                None \<Rightarrow> False
              | Some v \<Rightarrow> truthy v \<or> map_of (objects st c) ''memberName'' = Some (JStr n))
          \<and> (case map_of (objects st c) ''hidden'' of
                None \<Rightarrow> False
              | Some h \<Rightarrow> ih \<or> \<not> truthy h))"
      by (rule call_to_condition_total)
  qed
  then have second: "filter_raise (\<lambda>c. call_to_condition n ih (objects st c))
      (filter ?pos (self_callings st)) = Inr (appointment_targets st position n ih)"
    unfolding appointment_targets_def by (rule filter_raise_filter)
  show ?thesis
    by (simp add: get_calling_by_name_def first second)
qed

lemma hidden_targets:
  "appointment_targets st position n False =
     filter (\<lambda>c. case map_of (objects st c) ''hidden'' of None \<Rightarrow> False | Some h \<Rightarrow> \<not> truthy h)
       (appointment_targets st position n True)"
  unfolding appointment_targets_def filter_filter
  by (rule filter_cong) (auto split: option.splits)

lemma call_to_elsewhere:
  assumes "call_to get post st position n d s ih = (r, st')"
  shows "(\<forall>e. get_calling_by_name st position None (call_to_condition n ih) = Inl e \<longrightarrow> st' = st)
    \<and> (\<forall>calling c. get_calling_by_name st position None (call_to_condition n ih) = Inr calling
          \<and> c \<noteq> calling \<longrightarrow> objects st' c = objects st c)"
  using assms
  by (auto simp: call_to_def get_request_def appoint_def post_request_def Let_def
      split: sum.splits prod.splits)

lemma call_to_run:
  assumes "get_calling_by_name st position None (call_to_condition n ih) = Inr calling"
    and "candidate_query st calling n = Inr query"
    and "get ''services/orgs/lookup-calling-candidate-by-name''
           (setitem query ''lang'' (JStr ''eng'')) = Inr [member]"
    and "map_of member ''id'' = Some mid"
  shows "call_to get post st position n d s ih =
     (post ''services/orgs/callings''
        (setitem (setitem (setitem (setitem (setitem (objects st calling)
            ''activeDate'' (JStr (to_lcr_date_format d))) ''memberId'' mid)
            ''setApart'' (JBool s)) ''vacant'' (JBool False)) ''hidden'' (JBool False)),
      st\<lparr>objects := (objects st)(calling :=
              setitem (setitem (setitem (setitem (setitem (objects st calling)
                ''activeDate'' (JStr (to_lcr_date_format d))) ''memberId'' mid)
                ''setApart'' (JBool s)) ''vacant'' (JBool False)) ''hidden'' (JBool False)),
          requests := requests st
            @ [Get ''services/orgs/lookup-calling-candidate-by-name''
                 (setitem query ''lang'' (JStr ''eng'')),
               Post ''services/orgs/callings''
                 (setitem (setitem (setitem (setitem (setitem (objects st calling)
                    ''activeDate'' (JStr (to_lcr_date_format d))) ''memberId'' mid)
                    ''setApart'' (JBool s)) ''vacant'' (JBool False)) ''hidden'' (JBool False))]\<rparr>)"
  using assms
  by (simp add: call_to_def get_request_def appoint_def post_request_def Let_def single_def
      getitem_def assign_def)


text \<open>
  C6. Hidden-slot exclusion. A record whose \<open>hidden\<close> field is true is never touched by
  a \<open>call_to\<close> with \<open>include_hidden\<close> false. When such a record is the one record of the
  directory that meets the position and the vacancy or name condition, \<open>call_to\<close> with
  \<open>include_hidden\<close> false finds no calling and sends nothing, and \<open>call_to\<close> with
  \<open>include_hidden\<close> true takes it as its target: it looks the candidate up for it,
  writes the member into it, clears its \<open>hidden\<close> flag and submits it.
\<close>
theorem hidden_slots_excluded:
  "(call_to get post st position n d s False = (r, st')
      \<and> map_of (objects st c) ''hidden'' = Some h \<and> truthy h
    \<longrightarrow> objects st' c = objects st c)
   \<and> ((\<forall>c' \<in> set (self_callings st). appointable_shape position (objects st c'))
      \<and> appointment_targets st position n True = [c]
      \<and> map_of (objects st c) ''hidden'' = Some h \<and> truthy h
    \<longrightarrow> call_to get post st position n d s False
          = (Inl (ItemNotFoundException ''No calling found''), st)
      \<and> (candidate_query st c n = Inr query
          \<and> get ''services/orgs/lookup-calling-candidate-by-name''
               (setitem query ''lang'' (JStr ''eng'')) = Inr [member]
          \<and> map_of member ''id'' = Some mid
        \<longrightarrow> (\<exists>st''. call_to get post st position n d s True
                  = (post ''services/orgs/callings'' (objects st'' c), st'')
              \<and> map_of (objects st'' c) ''hidden'' = Some (JBool False)
              \<and> map_of (objects st'' c) ''vacant'' = Some (JBool False)
              \<and> map_of (objects st'' c) ''memberId'' = Some mid
              \<and> requests st'' = requests st
                    @ [Get ''services/orgs/lookup-calling-candidate-by-name''
                         (setitem query ''lang'' (JStr ''eng'')),
                       Post ''services/orgs/callings'' (objects st'' c)])))"
proof (intro conjI impI)
  assume a: "call_to get post st position n d s False = (r, st')
      \<and> map_of (objects st c) ''hidden'' = Some h \<and> truthy h"
  then have run: "call_to get post st position n d s False = (r, st')"
    and hid: "map_of (objects st c) ''hidden'' = Some h" "truthy h"
    by blast+
  show "objects st' c = objects st c"
  proof (cases "get_calling_by_name st position None (call_to_condition n False)")
    case (Inl e)
    then show ?thesis using call_to_elsewhere [OF run] by simp
  next
    case (Inr calling)
    from get_calling_by_name_Inr [OF Inr]
    have "call_to_condition n False (objects st calling) = Inr True" by simp
    then have "\<exists>h'. map_of (objects st calling) ''hidden'' = Some h' \<and> \<not> truthy h'"
      by (auto simp: call_to_condition_Inr_True)
    with hid have "c \<noteq> calling" by auto
    with Inr show ?thesis using call_to_elsewhere [OF run] by blast
  qed
next
  assume a: "(\<forall>c' \<in> set (self_callings st). appointable_shape position (objects st c'))
      \<and> appointment_targets st position n True = [c]
      \<and> map_of (objects st c) ''hidden'' = Some h \<and> truthy h"
  then have wf: "\<forall>c' \<in> set (self_callings st). appointable_shape position (objects st c')"
    and sole: "appointment_targets st position n True = [c]"
    and hid: "map_of (objects st c) ''hidden'' = Some h" "truthy h"
    by blast+
  have "appointment_targets st position n False = []"
    using hid by (simp add: hidden_targets sole)
  then have "get_calling_by_name st position None (call_to_condition n False)
      = Inl (ItemNotFoundException ''No calling found'')"
    by (simp add: target_resolution [OF wf] single_def)
  then show "call_to get post st position n d s False
          = (Inl (ItemNotFoundException ''No calling found''), st)"
    by (simp add: call_to_def)
next
  assume a: "(\<forall>c' \<in> set (self_callings st). appointable_shape position (objects st c'))
      \<and> appointment_targets st position n True = [c]
      \<and> map_of (objects st c) ''hidden'' = Some h \<and> truthy h"
    and b: "candidate_query st c n = Inr query
          \<and> get ''services/orgs/lookup-calling-candidate-by-name''
               (setitem query ''lang'' (JStr ''eng'')) = Inr [member]
          \<and> map_of member ''id'' = Some mid"
  from a have wf: "\<forall>c' \<in> set (self_callings st). appointable_shape position (objects st c')"
    and sole: "appointment_targets st position n True = [c]"
    by blast+
  from b have q: "candidate_query st c n = Inr query"
    and g: "get ''services/orgs/lookup-calling-candidate-by-name''
               (setitem query ''lang'' (JStr ''eng'')) = Inr [member]"
    and i: "map_of member ''id'' = Some mid"
    by blast+
  have t: "get_calling_by_name st position None (call_to_condition n True) = Inr c"
    by (simp add: target_resolution [OF wf] sole single_def)
  define appointed where "appointed = setitem (setitem (setitem (setitem (setitem (objects st c)
            ''activeDate'' (JStr (to_lcr_date_format d))) ''memberId'' mid)
            ''setApart'' (JBool s)) ''vacant'' (JBool False)) ''hidden'' (JBool False)"
  define st2 where "st2 = st\<lparr>objects := (objects st)(c := appointed),
          requests := requests st
            @ [Get ''services/orgs/lookup-calling-candidate-by-name''
                 (setitem query ''lang'' (JStr ''eng'')),
               Post ''services/orgs/callings'' appointed]\<rparr>"
  have run: "call_to get post st position n d s True = (post ''services/orgs/callings'' appointed, st2)"
    unfolding appointed_def st2_def by (rule call_to_run [where get = get, OF t q g i])
  have o: "objects st2 c = appointed" by (simp add: st2_def)
  have "map_of appointed ''hidden'' = Some (JBool False)"
    and "map_of appointed ''vacant'' = Some (JBool False)"
    and "map_of appointed ''memberId'' = Some mid"
    by (simp_all add: appointed_def map_of_setitem)
  moreover have "requests st2 = requests st
                    @ [Get ''services/orgs/lookup-calling-candidate-by-name''
                         (setitem query ''lang'' (JStr ''eng'')),
                       Post ''services/orgs/callings'' appointed]"
    by (simp add: st2_def)
  ultimately show "\<exists>st''. call_to get post st position n d s True
                  = (post ''services/orgs/callings'' (objects st'' c), st'')
              \<and> map_of (objects st'' c) ''hidden'' = Some (JBool False)
              \<and> map_of (objects st'' c) ''vacant'' = Some (JBool False)
              \<and> map_of (objects st'' c) ''memberId'' = Some mid
              \<and> requests st'' = requests st
                    @ [Get ''services/orgs/lookup-calling-candidate-by-name''
                         (setitem query ''lang'' (JStr ''eng'')),
                       Post ''services/orgs/callings'' (objects st'' c)]"
    using run o by (intro exI [of _ st2]) simp
qed

lemma position_and_name_total:
  assumes "map_of d ''position'' = Some p"
    and "p = JStr position \<longrightarrow> (\<exists>m. map_of d ''memberName'' = Some m)"
  shows "position_and_name position n d =
     Inr (map_of d ''position'' = Some (JStr position)
          \<and> (case n of None \<Rightarrow> True | Some s \<Rightarrow> map_of d ''memberName'' = Some (JStr s)))"
  using assms
  by (auto simp: position_and_name_def getitem_def py_eq_def split: option.splits)

text \<open>
  C7. Lookup matching rule: on a directory whose records carry the fields the test
  reads, \<open>_get_calling_by_name\<close> applies \<open>single\<close> to exactly those entries of
  \<open>self.callings\<close> whose \<open>position\<close> equals the given position, whose \<open>memberName\<close>
  equals the given name when a name is given, and on which the predicate holds; the
  default predicate holds everywhere.
\<close>
theorem get_calling_by_name_matching:
  assumes "\<forall>c \<in> set (self_callings st). \<exists>p. map_of (objects st c) ''position'' = Some p
      \<and> (p = JStr position \<longrightarrow> (\<exists>m. map_of (objects st c) ''memberName'' = Some m))"
  shows "get_calling_by_name st position lastNameCommaFirst (\<lambda>calling. Inr (P calling)) =
      single (filter (\<lambda>c. map_of (objects st c) ''position'' = Some (JStr position)
                \<and> (case lastNameCommaFirst of None \<Rightarrow> True
                    | Some n \<Rightarrow> map_of (objects st c) ''memberName'' = Some (JStr n))
                \<and> P (objects st c)) (self_callings st)) ''calling''
    \<and> get_calling_by_name st position lastNameCommaFirst always =
      single (filter (\<lambda>c. map_of (objects st c) ''position'' = Some (JStr position)
                \<and> (case lastNameCommaFirst of None \<Rightarrow> True
                    | Some n \<Rightarrow> map_of (objects st c) ''memberName'' = Some (JStr n)))
              (self_callings st)) ''calling''"
proof -
  let ?m = "\<lambda>c. map_of (objects st c) ''position'' = Some (JStr position)
                \<and> (case lastNameCommaFirst of None \<Rightarrow> True
                    | Some n \<Rightarrow> map_of (objects st c) ''memberName'' = Some (JStr n))"
  have "\<forall>c \<in> set (self_callings st).
      position_and_name position lastNameCommaFirst (objects st c) = Inr (?m c)"
  proof
    fix c assume "c \<in> set (self_callings st)"
    with assms obtain p where "map_of (objects st c) ''position'' = Some p"
      and "p = JStr position \<longrightarrow> (\<exists>m. map_of (objects st c) ''memberName'' = Some m)"
      by blast
    then show "position_and_name position lastNameCommaFirst (objects st c) = Inr (?m c)"
      by (rule position_and_name_total)
  qed
  then have first: "filter_raise (\<lambda>c. position_and_name position lastNameCommaFirst (objects st c))
      (self_callings st) = Inr (filter ?m (self_callings st))"
    by (rule filter_raise_total)
  have second: "filter_raise (\<lambda>c. Inr (Q (objects st c))) cs = Inr (filter (\<lambda>c. Q (objects st c)) cs)"
    for Q and cs :: "nat list"
    by (rule filter_raise_total) simp
  have "get_calling_by_name st position lastNameCommaFirst (\<lambda>calling. Inr (Q calling)) =
      single (filter (\<lambda>c. ?m c \<and> Q (objects st c)) (self_callings st)) ''calling''" for Q
    by (simp add: get_calling_by_name_def first second conj_commute)
  from this [of P] this [of "\<lambda>_. True"] show ?thesis
    by (simp add: always_def [abs_def] conj_ac)
qed

text \<open>
  C8. Non-atomic mutation on write failure: when the write of a release or of an
  appointment fails, the exception of the write leaves the call, the record in memory
  already holds the new field values, and the request that failed carried that record.
  No other write was issued.
\<close>
theorem write_failure_keeps_mutation:
  "(get_calling_by_name st position lastNameCommaFirst always = Inr calling
      \<and> released = setitem (setitem (objects st calling) ''vacant'' (JBool True))
            ''releaseDate'' (JStr (to_lcr_date_format today))
      \<and> post ''services/orgs/callings'' released = Inl e
    \<longrightarrow> (\<exists>st'. release_from_calling post today st position lastNameCommaFirst = (Inl e, st')
          \<and> objects st' calling = released
          \<and> map_of (objects st' calling) ''vacant'' = Some (JBool True)
          \<and> map_of (objects st' calling) ''releaseDate'' = Some (JStr (to_lcr_date_format today))
          \<and> requests st' = requests st @ [Post ''services/orgs/callings'' released]))
   \<and> (get_calling_by_name st position None (call_to_condition name include_hidden) = Inr calling
      \<and> candidate_query st calling name = Inr query
      \<and> get ''services/orgs/lookup-calling-candidate-by-name''
            (setitem query ''lang'' (JStr ''eng'')) = Inr [member]
      \<and> map_of member ''id'' = Some c
      \<and> appointed = setitem (setitem (setitem (setitem (setitem (objects st calling)
            ''activeDate'' (JStr (to_lcr_date_format d))) ''memberId'' c)
            ''setApart'' (JBool s)) ''vacant'' (JBool False)) ''hidden'' (JBool False)
      \<and> post ''services/orgs/callings'' appointed = Inl e
    \<longrightarrow> (\<exists>st'. call_to get post st position name d s include_hidden = (Inl e, st')
          \<and> objects st' calling = appointed
          \<and> map_of (objects st' calling) ''activeDate'' = Some (JStr (to_lcr_date_format d))
          \<and> map_of (objects st' calling) ''memberId'' = Some c
          \<and> map_of (objects st' calling) ''setApart'' = Some (JBool s)
          \<and> map_of (objects st' calling) ''vacant'' = Some (JBool False)
          \<and> map_of (objects st' calling) ''hidden'' = Some (JBool False)
          \<and> requests st' = requests st
                @ [Get ''services/orgs/lookup-calling-candidate-by-name''
                     (setitem query ''lang'' (JStr ''eng'')),
                   Post ''services/orgs/callings'' appointed]))"
proof (intro conjI impI)
  assume a: "get_calling_by_name st position lastNameCommaFirst always = Inr calling
      \<and> released = setitem (setitem (objects st calling) ''vacant'' (JBool True))
            ''releaseDate'' (JStr (to_lcr_date_format today))
      \<and> post ''services/orgs/callings'' released = Inl e"
  then have l: "get_calling_by_name st position lastNameCommaFirst always = Inr calling"
    and r: "released = setitem (setitem (objects st calling) ''vacant'' (JBool True))
            ''releaseDate'' (JStr (to_lcr_date_format today))"
    and p: "post ''services/orgs/callings'' released = Inl e"
    by blast+
  have "release_from_calling post today st position lastNameCommaFirst =
      (Inl e, (assign (assign st calling ''vacant'' (JBool True)) calling
        ''releaseDate'' (JStr (to_lcr_date_format today)))
        \<lparr>requests := requests st @ [Post ''services/orgs/callings'' released]\<rparr>)"
    using l p [unfolded r] by (simp add: release_from_calling_def post_request_def Let_def r)
  moreover have "map_of released ''vacant'' = Some (JBool True)"
    and "map_of released ''releaseDate'' = Some (JStr (to_lcr_date_format today))"
    by (simp_all add: r map_of_setitem)
  moreover have "objects (assign (assign st calling ''vacant'' (JBool True)) calling
        ''releaseDate'' (JStr (to_lcr_date_format today))) calling = released"
    by (simp add: r)
  ultimately show "\<exists>st'. release_from_calling post today st position lastNameCommaFirst = (Inl e, st')
          \<and> objects st' calling = released
          \<and> map_of (objects st' calling) ''vacant'' = Some (JBool True)
          \<and> map_of (objects st' calling) ''releaseDate'' = Some (JStr (to_lcr_date_format today))
          \<and> requests st' = requests st @ [Post ''services/orgs/callings'' released]"
    by simp
next
  assume a: "get_calling_by_name st position None (call_to_condition name include_hidden) = Inr calling
      \<and> candidate_query st calling name = Inr query
      \<and> get ''services/orgs/lookup-calling-candidate-by-name''
            (setitem query ''lang'' (JStr ''eng'')) = Inr [member]
      \<and> map_of member ''id'' = Some c
      \<and> appointed = setitem (setitem (setitem (setitem (setitem (objects st calling)
            ''activeDate'' (JStr (to_lcr_date_format d))) ''memberId'' c)
            ''setApart'' (JBool s)) ''vacant'' (JBool False)) ''hidden'' (JBool False)
      \<and> post ''services/orgs/callings'' appointed = Inl e"
  then have l: "get_calling_by_name st position None (call_to_condition name include_hidden) = Inr calling"
    and q: "candidate_query st calling name = Inr query"
    and g: "get ''services/orgs/lookup-calling-candidate-by-name''
            (setitem query ''lang'' (JStr ''eng'')) = Inr [member]"
    and i: "map_of member ''id'' = Some c"
    and r: "appointed = setitem (setitem (setitem (setitem (setitem (objects st calling)
            ''activeDate'' (JStr (to_lcr_date_format d))) ''memberId'' c)
            ''setApart'' (JBool s)) ''vacant'' (JBool False)) ''hidden'' (JBool False)"
    and p: "post ''services/orgs/callings'' appointed = Inl e"
    by blast+
  define st1 where "st1 = st\<lparr>requests := requests st
      @ [Get ''services/orgs/lookup-calling-candidate-by-name'' (setitem query ''lang'' (JStr ''eng''))]\<rparr>"
  define st5 where "st5 = assign (assign (assign (assign (assign st1 calling
      ''activeDate'' (JStr (to_lcr_date_format d))) calling ''memberId'' c) calling
      ''setApart'' (JBool s)) calling ''vacant'' (JBool False)) calling ''hidden'' (JBool False)"
  have o5: "objects st5 calling = appointed"
    by (simp add: r st5_def st1_def)
  have r1: "setitem (setitem (setitem (setitem (setitem (objects st1 calling)
            ''activeDate'' (JStr (to_lcr_date_format d))) ''memberId'' c)
            ''setApart'' (JBool s)) ''vacant'' (JBool False)) ''hidden'' (JBool False) = appointed"
    by (simp add: r st1_def)
  have r5: "requests st5 = requests st1"
    by (simp add: st5_def)
  have "appoint post st1 calling member d s =
      (Inl e, st5\<lparr>requests := requests st5 @ [Post ''services/orgs/callings'' appointed]\<rparr>)"
    using p by (simp add: appoint_def post_request_def Let_def getitem_def i st5_def [symmetric] r1 r5)
  then have run: "call_to get post st position name d s include_hidden =
      (Inl e, st5\<lparr>requests := requests st5 @ [Post ''services/orgs/callings'' appointed]\<rparr>)"
    using l q g by (simp add: call_to_def get_request_def Let_def single_def st1_def [symmetric])
  have fields: "map_of appointed ''activeDate'' = Some (JStr (to_lcr_date_format d))"
      "map_of appointed ''memberId'' = Some c"
      "map_of appointed ''setApart'' = Some (JBool s)"
      "map_of appointed ''vacant'' = Some (JBool False)"
      "map_of appointed ''hidden'' = Some (JBool False)"
    by (simp_all add: r map_of_setitem)
  have reqs: "requests st5 = requests st
      @ [Get ''services/orgs/lookup-calling-candidate-by-name'' (setitem query ''lang'' (JStr ''eng''))]"
    by (simp add: st5_def st1_def)
  show "\<exists>st'. call_to get post st position name d s include_hidden = (Inl e, st')
          \<and> objects st' calling = appointed
          \<and> map_of (objects st' calling) ''activeDate'' = Some (JStr (to_lcr_date_format d))
          \<and> map_of (objects st' calling) ''memberId'' = Some c
          \<and> map_of (objects st' calling) ''setApart'' = Some (JBool s)
          \<and> map_of (objects st' calling) ''vacant'' = Some (JBool False)
          \<and> map_of (objects st' calling) ''hidden'' = Some (JBool False)
          \<and> requests st' = requests st
                @ [Get ''services/orgs/lookup-calling-candidate-by-name''
                     (setitem query ''lang'' (JStr ''eng'')),
                   Post ''services/orgs/callings'' appointed]"
    unfolding run using o5 fields reqs by simp
qed

section \<open>The workflows on the example directories\<close>

lemmas ex_defs = teacher_smith_def teacher_doe_def teacher_vacant_def clerk_jones_def teachers_def
  open_slot_def candidates_def doe_jane_def accepting_def rejecting_def deep_portal_def

lemmas run_defs = release_from_calling_def call_to_def get_calling_by_name_def
  position_and_name_def call_to_condition_def candidate_query_def appoint_def
  get_request_def post_request_def assign_def getitem_def setitem_def single_def py_eq_def
  always_def Let_def

lemma smith_lookup: "get_calling_by_name teachers ''Teacher'' (Some ''Smith, John'') always = Inr 1"
  by (simp add: ex_defs run_defs)

lemma any_teacher_lookup:
  "get_calling_by_name teachers ''Teacher'' None always
     = Inl (MultipleResponsesException ''More than one calling found'')"
  by (simp add: ex_defs run_defs)

lemma release_smith:
  "fst (release_from_calling accepting \<lparr>year = 2024, month = 3, day = 5\<rparr> teachers ''Teacher''
     (Some ''Smith, John'')) = Inr ()"
  by (simp add: ex_defs run_defs)

text \<open>Releasing John Smith on 2024-03-05.\<close>
theorem release_write_shape_witness:
  "fst (release_from_calling accepting \<lparr>year = 2024, month = 3, day = 5\<rparr> teachers ''Teacher''
          (Some ''Smith, John'')) = Inr ()
   \<and> map_of (objects (snd (release_from_calling accepting \<lparr>year = 2024, month = 3, day = 5\<rparr>
          teachers ''Teacher'' (Some ''Smith, John''))) 1) ''vacant'' = Some (JBool True)
   \<and> map_of (objects (snd (release_from_calling accepting \<lparr>year = 2024, month = 3, day = 5\<rparr>
          teachers ''Teacher'' (Some ''Smith, John''))) 1) ''releaseDate'' = Some (JStr ''20240305'')
   \<and> length (requests (snd (release_from_calling accepting \<lparr>year = 2024, month = 3, day = 5\<rparr>
          teachers ''Teacher'' (Some ''Smith, John'')))) = 1"
proof -
  let ?today = "\<lparr>year = 2024, month = 3, day = 5\<rparr>"
  let ?run = "release_from_calling accepting ?today teachers ''Teacher'' (Some ''Smith, John'')"
  have run: "?run = (Inr (), snd ?run)"
    using release_smith by (metis prod.collapse)
  have fd: "four_digit_date ?today" by (simp add: four_digit_date_def)
  have none: "requests teachers = []" by (simp add: teachers_def)
  from release_write_shape [OF run] obtain calling where
      c: "get_calling_by_name teachers ''Teacher'' (Some ''Smith, John'') always = Inr calling"
      and v: "map_of (objects (snd ?run) calling) ''vacant'' = Some (JBool True)"
      and r: "requests (snd ?run) = requests teachers
                @ [Post ''services/orgs/callings'' (objects (snd ?run) calling)]"
      and g: "four_digit_date ?today
            \<longrightarrow> map_of (objects (snd ?run) calling) ''releaseDate'' = Some (JStr (yyyymmdd ?today))
              \<and> length (yyyymmdd ?today) = 8 \<and> ascii_digits (yyyymmdd ?today)"
      and e: "yyyymmdd ?today = ''20240305''"
    by blast
  from c have one: "calling = 1" by (simp add: smith_lookup)
  from g fd e have "map_of (objects (snd ?run) calling) ''releaseDate'' = Some (JStr ''20240305'')"
    by simp
  with v r show ?thesis
    by (simp add: one none release_smith)
qed

lemma open_slot_lookup:
  "get_calling_by_name (open_slot False) ''Teacher'' None (call_to_condition ''Doe, Jane'' False) = Inr 3"
  by (simp add: ex_defs run_defs)

lemma open_slot_query:
  "candidate_query (open_slot False) 3 ''Doe, Jane'' =
     Inr [(''term'', JStr ''Doe, Jane''), (''unitNumber'', JNum 9999), (''subOrgId'', JNum 7),
          (''includeOutOfUnitMembers'', JBool True), (''positionTypeId'', JNum 42), (''_'', JNull)]"
  by (simp add: ex_defs run_defs)

lemma appoint_doe:
  "fst (call_to (candidates [doe_jane]) accepting (open_slot False) ''Teacher'' ''Doe, Jane''
     \<lparr>year = 2024, month = 9, day = 1\<rparr> True False)
   = Inr (JObj [(''position'', JStr ''Teacher''), (''memberName'', JNull),
      (''memberId'', JStr ''12345''), (''vacant'', JBool False), (''hidden'', JBool False),
      (''subOrgId'', JNum 7), (''positionTypeId'', JNum 42),
      (''activeDate'', JStr (to_lcr_date_format \<lparr>year = 2024, month = 9, day = 1\<rparr>)),
      (''releaseDate'', JStr ''20230101''), (''setApart'', JBool True)])"
  by (simp add: ex_defs run_defs)

lemma september: "to_lcr_date_format \<lparr>year = 2024, month = 9, day = 1\<rparr> = ''20240901''"
  by code_simp

text \<open>Appointing candidate 12345 to the vacant Teacher slot on 2024-09-01, set apart.\<close>
theorem call_to_write_shape_witness:
  "\<exists>response st'.
      call_to (candidates [doe_jane]) accepting (open_slot False) ''Teacher'' ''Doe, Jane''
        \<lparr>year = 2024, month = 9, day = 1\<rparr> True False = (Inr response, st')
    \<and> map_of (objects st' 3) ''activeDate'' = Some (JStr ''20240901'')
    \<and> map_of (objects st' 3) ''memberId'' = Some (JStr ''12345'')
    \<and> map_of (objects st' 3) ''setApart'' = Some (JBool True)
    \<and> map_of (objects st' 3) ''vacant'' = Some (JBool False)
    \<and> map_of (objects st' 3) ''hidden'' = Some (JBool False)
    \<and> length (requests st') = 2
    \<and> last (requests st') = Post ''services/orgs/callings'' (objects st' 3)"
proof -
  let ?d = "\<lparr>year = 2024, month = 9, day = 1\<rparr>"
  let ?run = "call_to (candidates [doe_jane]) accepting (open_slot False) ''Teacher'' ''Doe, Jane''
     ?d True False"
  obtain response where "fst ?run = Inr response"
    using appoint_doe by blast
  then have run: "?run = (Inr response, snd ?run)"
    by (metis prod.collapse)
  have none: "requests (open_slot False) = []" by (simp add: open_slot_def)
  have fd: "four_digit_date ?d" by (simp add: four_digit_date_def)
  have e: "yyyymmdd ?d = ''20240901''" by code_simp
  from call_to_write_shape [OF run] obtain calling query member c body where
      t: "get_calling_by_name (open_slot False) ''Teacher'' None
            (call_to_condition ''Doe, Jane'' False) = Inr calling"
      and m: "candidates [doe_jane] ''services/orgs/lookup-calling-candidate-by-name'' query
            = Inr [member]"
      and i: "map_of member ''id'' = Some c"
      and r: "requests (snd ?run) = requests (open_slot False)
            @ [Get ''services/orgs/lookup-calling-candidate-by-name'' query,
               Post ''services/orgs/callings'' body]"
      and b: "body = objects (snd ?run) calling"
      and a: "four_digit_date ?d \<longrightarrow> map_of body ''activeDate'' = Some (JStr (yyyymmdd ?d))"
      and f: "map_of body ''memberId'' = Some c" "map_of body ''setApart'' = Some (JBool True)"
        "map_of body ''vacant'' = Some (JBool False)" "map_of body ''hidden'' = Some (JBool False)"
    by blast
  from t have three: "calling = 3" by (simp add: open_slot_lookup)
  from m have "member = doe_jane" by (simp add: candidates_def)
  with i have c: "c = JStr ''12345''" by (simp add: doe_jane_def)
  from b three have b3: "objects (snd ?run) 3 = body" by simp
  from a fd e have "map_of body ''activeDate'' = Some (JStr ''20240901'')" by simp
  with f r have "map_of (objects (snd ?run) 3) ''activeDate'' = Some (JStr ''20240901'')
    \<and> map_of (objects (snd ?run) 3) ''memberId'' = Some (JStr ''12345'')
    \<and> map_of (objects (snd ?run) 3) ''setApart'' = Some (JBool True)
    \<and> map_of (objects (snd ?run) 3) ''vacant'' = Some (JBool False)
    \<and> map_of (objects (snd ?run) 3) ''hidden'' = Some (JBool False)
    \<and> length (requests (snd ?run)) = 2
    \<and> last (requests (snd ?run)) = Post ''services/orgs/callings'' (objects (snd ?run) 3)"
    using b3 by (simp add: c none)
  with run show ?thesis by blast
qed

text \<open>
  The claim C4 as stated fails on an effective date before the year 1000: for 999-01-01
  the record submitted carries the seven characters \<open>9990101\<close>, where \<open>YYYYMMDD\<close> is
  \<open>09990101\<close>.
\<close>
theorem call_to_year_999:
  "fst (call_to (candidates [doe_jane]) accepting (open_slot False) ''Teacher'' ''Doe, Jane''
     \<lparr>year = 999, month = 1, day = 1\<rparr> True False)
   = Inr (JObj [(''position'', JStr ''Teacher''), (''memberName'', JNull),
      (''memberId'', JStr ''12345''), (''vacant'', JBool False), (''hidden'', JBool False),
      (''subOrgId'', JNum 7), (''positionTypeId'', JNum 42),
      (''activeDate'', JStr ''9990101''),
      (''releaseDate'', JStr ''20230101''), (''setApart'', JBool True)])
   \<and> map_of (objects (snd (call_to (candidates [doe_jane]) accepting (open_slot False) ''Teacher''
        ''Doe, Jane'' \<lparr>year = 999, month = 1, day = 1\<rparr> True False)) 3) ''activeDate''
      = Some (JStr ''9990101'')
   \<and> yyyymmdd \<lparr>year = 999, month = 1, day = 1\<rparr> = ''09990101''
   \<and> length ''9990101'' = 7"
proof -
  have "yyyymmdd \<lparr>year = 999, month = 1, day = 1\<rparr> = ''09990101''"
    by code_simp
  then show ?thesis
    using year_999 by (simp add: ex_defs run_defs)
qed

text \<open>No candidate, and two candidates, for the vacant Teacher slot.\<close>
theorem call_to_aborts_before_write_witness:
  "(\<exists>st'. call_to (candidates []) accepting (open_slot False) ''Teacher'' ''Doe, Jane''
        \<lparr>year = 2024, month = 9, day = 1\<rparr> True False
        = (Inl (ItemNotFoundException ''No member found''), st')
      \<and> objects st' = objects (open_slot False) \<and> length (requests st') = 1)
   \<and> (\<exists>st'. call_to (candidates [doe_jane, doe_jane]) accepting (open_slot False) ''Teacher''
        ''Doe, Jane'' \<lparr>year = 2024, month = 9, day = 1\<rparr> True False
        = (Inl (MultipleResponsesException ''More than one member found''), st')
      \<and> objects st' = objects (open_slot False) \<and> length (requests st') = 1)"
proof -
  have r: "requests (open_slot False) = []" by (simp add: open_slot_def)
  have none: "candidates [] ''services/orgs/lookup-calling-candidate-by-name'' q = Inr []" for q
    by (simp add: candidates_def)
  have two: "candidates [doe_jane, doe_jane] ''services/orgs/lookup-calling-candidate-by-name'' q
      = Inr [doe_jane, doe_jane]" for q
    by (simp add: candidates_def)
  show ?thesis
    using call_to_aborts_before_write [where get = "candidates []" and post = accepting
        and d = "\<lparr>year = 2024, month = 9, day = 1\<rparr>" and s = True,
        OF open_slot_lookup open_slot_query none]
      call_to_aborts_before_write [where get = "candidates [doe_jane, doe_jane]"
        and post = accepting and d = "\<lparr>year = 2024, month = 9, day = 1\<rparr>" and s = True,
        OF open_slot_lookup open_slot_query two]
    by (auto simp: r)
qed

lemma hidden_slot_shape:
  "\<forall>c \<in> set (self_callings (open_slot True)). appointable_shape ''Teacher'' (objects (open_slot True) c)"
  by (simp add: ex_defs appointable_shape_def)

lemma hidden_slot_targets:
  "appointment_targets (open_slot True) ''Teacher'' ''Doe, Jane'' True = [3]"
  by (simp add: ex_defs appointment_targets_def)

lemma hidden_slot_query:
  "candidate_query (open_slot True) 3 ''Doe, Jane'' =
     Inr [(''term'', JStr ''Doe, Jane''), (''unitNumber'', JNum 9999), (''subOrgId'', JNum 7),
          (''includeOutOfUnitMembers'', JBool True), (''positionTypeId'', JNum 42), (''_'', JNull)]"
  by (simp add: ex_defs run_defs)

text \<open>The hidden vacant Teacher slot, with the default and with hidden slots included.\<close>
theorem hidden_slots_excluded_witness:
  "call_to (candidates [doe_jane]) accepting (open_slot True) ''Teacher'' ''Doe, Jane''
        \<lparr>year = 2024, month = 9, day = 1\<rparr> True False
      = (Inl (ItemNotFoundException ''No calling found''), open_slot True)
   \<and> (\<exists>st''. call_to (candidates [doe_jane]) accepting (open_slot True) ''Teacher'' ''Doe, Jane''
        \<lparr>year = 2024, month = 9, day = 1\<rparr> True True = (Inr (JObj (objects st'' 3)), st'')
      \<and> map_of (objects st'' 3) ''hidden'' = Some (JBool False)
      \<and> map_of (objects st'' 3) ''memberId'' = Some (JStr ''12345'')
      \<and> length (requests st'') = 2)
   \<and> map_of (objects (open_slot True) 3) ''hidden'' = Some (JBool True)"
proof -
  let ?d = "\<lparr>year = 2024, month = 9, day = 1\<rparr>"
  have hid: "map_of (objects (open_slot True) 3) ''hidden'' = Some (JBool True)" "truthy (JBool True)"
    by (simp_all add: ex_defs)
  have one: "candidates [doe_jane] ''services/orgs/lookup-calling-candidate-by-name'' q = Inr [doe_jane]" for q
    by (simp add: candidates_def)
  have id: "map_of doe_jane ''id'' = Some (JStr ''12345'')" by (simp add: doe_jane_def)
  have none: "requests (open_slot True) = []" by (simp add: open_slot_def)
  note inst = hidden_slots_excluded [where st = "open_slot True" and position = "''Teacher''"
      and n = "''Doe, Jane''" and c = 3 and h = "JBool True" and get = "candidates [doe_jane]"
      and post = accepting and d = ?d and s = True and member = doe_jane
      and mid = "JStr ''12345''", THEN conjunct2, rule_format,
      OF conjI [OF hidden_slot_shape conjI [OF hidden_slot_targets conjI [OF hid]]]]
  from inst have default: "call_to (candidates [doe_jane]) accepting (open_slot True) ''Teacher''
        ''Doe, Jane'' ?d True False = (Inl (ItemNotFoundException ''No calling found''), open_slot True)"
    by blast
  from inst [THEN conjunct2, rule_format, OF conjI [OF hidden_slot_query conjI [OF one id]]]
  obtain st'' where "call_to (candidates [doe_jane]) accepting (open_slot True) ''Teacher''
        ''Doe, Jane'' ?d True True = (accepting ''services/orgs/callings'' (objects st'' 3), st'')"
    and "map_of (objects st'' 3) ''hidden'' = Some (JBool False)"
    and "map_of (objects st'' 3) ''memberId'' = Some (JStr ''12345'')"
    and "requests st'' = requests (open_slot True)
                    @ [Get ''services/orgs/lookup-calling-candidate-by-name''
                         (setitem [(''term'', JStr ''Doe, Jane''), (''unitNumber'', JNum 9999),
                            (''subOrgId'', JNum 7), (''includeOutOfUnitMembers'', JBool True),
                            (''positionTypeId'', JNum 42), (''_'', JNull)] ''lang'' (JStr ''eng'')),
                       Post ''services/orgs/callings'' (objects st'' 3)]"
    by blast
  then have "\<exists>st''. call_to (candidates [doe_jane]) accepting (open_slot True) ''Teacher'' ''Doe, Jane''
        ?d True True = (Inr (JObj (objects st'' 3)), st'')
      \<and> map_of (objects st'' 3) ''hidden'' = Some (JBool False)
      \<and> map_of (objects st'' 3) ''memberId'' = Some (JStr ''12345'')
      \<and> length (requests st'') = 2"
    by (intro exI [of _ st'']) (simp add: accepting_def none)
  with default hid show ?thesis by blast
qed

text \<open>The two teachers of the specification's example.\<close>
theorem get_calling_by_name_matching_witness:
  "get_calling_by_name teachers ''Teacher'' (Some ''Smith, John'') always = Inr 1
   \<and> get_calling_by_name teachers ''Teacher'' None always
      = Inl (MultipleResponsesException ''More than one calling found'')
   \<and> get_calling_by_name teachers ''Teacher'' None
        (\<lambda>calling. Inr (map_of calling ''memberId'' = Some (JStr ''222''))) = Inr 2
   \<and> get_calling_by_name teachers ''Clerk'' None always
      = Inl (ItemNotFoundException ''No calling found'')"
proof -
  have wf: "\<forall>c \<in> set (self_callings teachers). \<exists>p. map_of (objects teachers c) ''position'' = Some p
      \<and> (p = JStr pos \<longrightarrow> (\<exists>m. map_of (objects teachers c) ''memberName'' = Some m))" for pos
    by (simp add: teachers_def teacher_smith_def teacher_doe_def)
  show ?thesis
    using get_calling_by_name_matching [OF wf, of "''Teacher''" "Some ''Smith, John''" "\<lambda>_. True"]
      get_calling_by_name_matching [OF wf, of "''Teacher''" None
        "\<lambda>calling. map_of calling ''memberId'' = Some (JStr ''222'')"]
      get_calling_by_name_matching [OF wf, of "''Clerk''" None "\<lambda>_. True"]
    by (simp add: teachers_def teacher_smith_def teacher_doe_def single_def)
qed

text \<open>The same release and the same appointment against a portal that refuses the write.\<close>
theorem write_failure_keeps_mutation_witness:
  "(\<exists>st'. release_from_calling rejecting \<lparr>year = 2024, month = 3, day = 5\<rparr> teachers ''Teacher''
          (Some ''Smith, John'') = (Inl (RemoteFailure ''500 Server Error''), st')
      \<and> map_of (objects teachers 1) ''vacant'' = Some (JBool False)
      \<and> map_of (objects st' 1) ''vacant'' = Some (JBool True)
      \<and> map_of (objects st' 1) ''releaseDate'' = Some (JStr ''20240305'')
      \<and> requests st' = [Post ''services/orgs/callings'' (objects st' 1)])
   \<and> (\<exists>st'. call_to (candidates [doe_jane]) rejecting (open_slot False) ''Teacher'' ''Doe, Jane''
          \<lparr>year = 2024, month = 9, day = 1\<rparr> True False
          = (Inl (RemoteFailure ''500 Server Error''), st')
      \<and> map_of (objects (open_slot False) 3) ''vacant'' = Some (JBool True)
      \<and> map_of (objects st' 3) ''vacant'' = Some (JBool False)
      \<and> map_of (objects st' 3) ''memberId'' = Some (JStr ''12345'')
      \<and> map_of (objects st' 3) ''activeDate'' = Some (JStr ''20240901'')
      \<and> length (requests st') = 2)"
proof -
  have rej: "rejecting ''services/orgs/callings'' b = Inl (RemoteFailure ''500 Server Error'')" for b
    by (simp add: rejecting_def)
  have one: "candidates [doe_jane] ''services/orgs/lookup-calling-candidate-by-name'' q = Inr [doe_jane]" for q
    by (simp add: candidates_def)
  have id: "map_of doe_jane ''id'' = Some (JStr ''12345'')" by (simp add: doe_jane_def)
  have before: "map_of (objects teachers 1) ''vacant'' = Some (JBool False)"
      "map_of (objects (open_slot False) 3) ''vacant'' = Some (JBool True)"
      "requests teachers = []" "requests (open_slot False) = []"
    by (simp_all add: ex_defs)
  note rel = write_failure_keeps_mutation [where st = teachers and position = "''Teacher''"
      and lastNameCommaFirst = "Some ''Smith, John''" and calling = 1
      and today = "\<lparr>year = 2024, month = 3, day = 5\<rparr>" and post = rejecting
      and e = "RemoteFailure ''500 Server Error''", THEN conjunct1, rule_format]
  note app = write_failure_keeps_mutation [where st = "open_slot False"
      and position = "''Teacher''" and name = "''Doe, Jane''" and include_hidden = False
      and calling = 3 and get = "candidates [doe_jane]" and member = doe_jane
      and c = "JStr ''12345''" and d = "\<lparr>year = 2024, month = 9, day = 1\<rparr>" and s = True
      and post = rejecting and e = "RemoteFailure ''500 Server Error''",
      THEN conjunct2, rule_format]
  have first: "\<exists>st'. release_from_calling rejecting \<lparr>year = 2024, month = 3, day = 5\<rparr> teachers
          ''Teacher'' (Some ''Smith, John'') = (Inl (RemoteFailure ''500 Server Error''), st')
      \<and> map_of (objects st' 1) ''vacant'' = Some (JBool True)
      \<and> map_of (objects st' 1) ''releaseDate'' = Some (JStr ''20240305'')
      \<and> requests st' = [Post ''services/orgs/callings'' (objects st' 1)]"
    using rel [OF conjI [OF smith_lookup conjI [OF refl rej]]]
      example_date before by auto
  have second: "\<exists>st'. call_to (candidates [doe_jane]) rejecting (open_slot False) ''Teacher''
          ''Doe, Jane'' \<lparr>year = 2024, month = 9, day = 1\<rparr> True False
          = (Inl (RemoteFailure ''500 Server Error''), st')
      \<and> map_of (objects st' 3) ''vacant'' = Some (JBool False)
      \<and> map_of (objects st' 3) ''memberId'' = Some (JStr ''12345'')
      \<and> map_of (objects st' 3) ''activeDate'' = Some (JStr ''20240901'')
      \<and> length (requests st') = 2"
    using app [OF conjI [OF open_slot_lookup
        conjI [OF open_slot_query conjI [OF one conjI [OF id conjI [OF refl rej]]]]]]
      september before by auto
  from first second before show ?thesis by blast
qed

lemma deep_init:
  "Callings_init deep_portal (JNum 9999) =
     Some (Inr \<lparr>self_callings = [1, 2, 3, 3],
        objects = (\<lambda>_. [])(1 := teacher_smith, 2 := teacher_doe, 3 := clerk_jones),
        unit_number = JNum 9999,
        requests = [Get ''services/orgs/sub-orgs-with-callings'' [(''lang'', JStr ''eng'')]]\<rparr>)"
  by (simp add: Callings_init_def deep_portal_def deep_orgs_flattened)

text \<open>
  C1 on a chain of three levels. The tree holds the records 1, 2 and 3 once each; the
  constructor stores record 3 twice, and releasing the one person who holds it fails
  with \<open>MultipleResponsesException\<close> before any request is sent.
\<close>
theorem flatten_orgs_repeats_third_level:
  "flattened_callings deep_orgs = Some [1, 2, 3, 3]
   \<and> concat (map pre_callings deep_orgs) = [1, 2, 3]
   \<and> (\<exists>st. Callings_init deep_portal (JNum 9999) = Some (Inr st)
        \<and> self_callings st = [1, 2, 3, 3]
        \<and> release_from_calling accepting \<lparr>year = 2024, month = 3, day = 5\<rparr> st ''Clerk''
             (Some ''Jones, Ann'')
           = (Inl (MultipleResponsesException ''More than one calling found''), st))"
proof -
  have "concat (map pre_callings deep_orgs) = [1, 2, 3]"
    by (simp add: deep_orgs_def)
  moreover have "release_from_calling accepting \<lparr>year = 2024, month = 3, day = 5\<rparr>
      \<lparr>self_callings = [1, 2, 3, 3],
        objects = (\<lambda>_. [])(1 := teacher_smith, 2 := teacher_doe, 3 := clerk_jones),
        unit_number = JNum 9999,
        requests = [Get ''services/orgs/sub-orgs-with-callings'' [(''lang'', JStr ''eng'')]]\<rparr>
      ''Clerk'' (Some ''Jones, Ann'')
    = (Inl (MultipleResponsesException ''More than one calling found''),
      \<lparr>self_callings = [1, 2, 3, 3],
        objects = (\<lambda>_. [])(1 := teacher_smith, 2 := teacher_doe, 3 := clerk_jones),
        unit_number = JNum 9999,
        requests = [Get ''services/orgs/sub-orgs-with-callings'' [(''lang'', JStr ''eng'')]]\<rparr>)"
    by (simp add: ex_defs run_defs)
  ultimately show ?thesis
    using deep_orgs_flattened deep_init by simp
qed

end
